theory Spec2Isabelle
  imports Complex_Main "HOL-Library.Monad_Syntax"
begin

section \<open>Data model\<close>

text \<open>
  The layer store and its undo/redo log live in the React hook \<open>useCanvas\<close>
  (src/hooks/useCanvas.ts); the \<open>Layer\<close> and \<open>Point\<close> interfaces come from the
  canvas component. A JavaScript \<open>number\<close> is modelled as a real: the hook only copies
  and compares the numeric fields of a layer, it never computes with them.
\<close>

type_synonym number = real

record xy =
  pos_x :: number
  pos_y :: number

text \<open>\<open>interface Layer\<close>. The optional \<open>rotation?: number\<close> is \<open>None\<close> when the object
  has no such key.\<close>

record layer =
  id_l :: string
  type_l :: string
  position :: xy
  scale :: number
  rotation :: "number option"
  opacity :: number
  zIndex :: number
  locked :: bool
  visible :: bool
  version :: number
  texturePath :: string

text \<open>\<open>Omit<Layer, 'id'>\<close>, the argument of \<open>addLayer\<close>.\<close>

record layer_spec =
  s_type :: string
  s_position :: xy
  s_scale :: number
  s_rotation :: "number option"
  s_opacity :: number
  s_zIndex :: number
  s_locked :: bool
  s_visible :: bool
  s_version :: number
  s_texturePath :: string

text \<open>\<open>Partial<Layer>\<close>: every key may be missing (\<open>None\<close>); a key that is present
  carries a value of the field's type.\<close>

record partial =
  p_id :: "string option"
  p_type :: "string option"
  p_position :: "xy option"
  p_scale :: "number option"
  p_rotation :: "number option"
  p_opacity :: "number option"
  p_zIndex :: "number option"
  p_locked :: "bool option"
  p_visible :: "bool option"
  p_version :: "number option"
  p_texturePath :: "string option"

record point =
  pt_x :: number
  pt_y :: number
  pt_type :: string
  pt_name :: "string option"

datatype action_type = Add | Remove | Update | Move | Reorder

text \<open>
  The \<open>before\<close> and \<open>after\<close> fields of a history action are declared as
  \<open>Partial<Layer> | null\<close>; the hook stores two shapes of object in them: an object made
  of layer fields (a whole layer, or \<open>{ position }\<close>), and \<open>{ layers: [...] }\<close>, a whole
  collection.
\<close>

datatype snapshot = Fields partial | LayersSnap "layer list"

text \<open>\<open>Omit<HistoryAction, 'timestamp'>\<close> and \<open>HistoryAction\<close>. A missing, \<open>undefined\<close> or
  \<open>null\<close> field is \<open>None\<close>.\<close>

record action =
  type_a :: action_type
  layerId :: "string option"
  before :: "snapshot option"
  after :: "snapshot option"

record HistoryAction = action +
  timestamp :: nat

definition MAX_HISTORY_SIZE :: nat where
  "MAX_HISTORY_SIZE = 20"

text \<open>
  The hook's state: the five \<open>useState\<close> cells and the \<open>isUndoRedoInProgress\<close> ref.
  Every operation of the next sections is one call on a freshly rendered hook, so the
  values its closure captured (\<open>layers\<close>, \<open>selectedLayerId\<close>, \<open>history\<close>, \<open>historyIndex\<close>,
  \<open>isBatchingActions\<close>) are those of the state it is applied to, and the \<open>prev\<close> handed to a
  functional updater is the same value. Calls that share a render have a section of
  their own. The \<open>onChange\<close> notification to the persistence collaborator is outside the
  model.
\<close>

record state =
  layers :: "layer list"
  selectedLayerId :: "string option"
  mapPoints :: "point list"
  history :: "HistoryAction list"
  historyIndex :: int
  isBatchingActions :: bool
  isUndoRedoInProgress :: bool

text \<open>The initial values of the \<open>useState\<close> and \<open>useRef\<close> calls.\<close>

definition initial :: "layer list \<Rightarrow> state" where
  "initial initialLayers =
     \<lparr>layers = initialLayers, selectedLayerId = None, mapPoints = [], history = [],
      historyIndex = - 1, isBatchingActions = False, isUndoRedoInProgress = False\<rparr>"

section \<open>JavaScript helpers\<close>

text \<open>\<open>Array.prototype.slice(start, end)\<close>: a negative bound counts from the end.\<close>

definition rel_index :: "int \<Rightarrow> nat \<Rightarrow> nat" where
  "rel_index i len = (if i < 0 then nat (max (int len + i) 0) else min (nat i) len)"

definition slice :: "int \<Rightarrow> int \<Rightarrow> 'a list \<Rightarrow> 'a list" where
  "slice start end xs =
     (let k = rel_index start (length xs); final = rel_index end (length xs)
      in take (final - k) (drop k xs))"

text \<open>\<open>slice(start)\<close>: up to the end of the array.\<close>

definition slice_from :: "int \<Rightarrow> 'a list \<Rightarrow> 'a list" where
  "slice_from start xs = drop (rel_index start (length xs)) xs"

text \<open>\<open>xs[i]\<close>: \<open>undefined\<close> outside the array.\<close>

definition at_index :: "'a list \<Rightarrow> int \<Rightarrow> 'a option" where
  "at_index xs i = (if 0 \<le> i \<and> i < int (length xs) then Some (xs ! nat i) else None)"

text \<open>Truthiness of a \<open>string | null | undefined\<close>: the empty string is falsy.\<close>

fun truthy :: "string option \<Rightarrow> bool" where
  "truthy None = False"
| "truthy (Some s) = (s \<noteq> [])"

text \<open>Decimal rendering of a non-negative integer, as the template literal
  \<open>`layer_${Date.now()}`\<close> does.\<close>

definition digit :: "nat \<Rightarrow> char" where
  "digit d = ''0123456789'' ! d"

fun decimal :: "nat \<Rightarrow> string" where
  "decimal n = (if n < 10 then [digit n] else decimal (n div 10) @ [digit (n mod 10)])"

declare decimal.simps [simp del]

section \<open>Objects: spread and casts\<close>

text \<open>\<open>{ ...newLayer, id }\<close>\<close>

definition with_id :: "layer_spec \<Rightarrow> string \<Rightarrow> layer" where
  "with_id sp i =
     \<lparr>id_l = i, type_l = s_type sp, position = s_position sp, scale = s_scale sp,
      rotation = s_rotation sp, opacity = s_opacity sp, zIndex = s_zIndex sp,
      locked = s_locked sp, visible = s_visible sp, version = s_version sp,
      texturePath = s_texturePath sp\<rparr>"

definition or_else :: "'a option \<Rightarrow> 'a \<Rightarrow> 'a" where
  "or_else v d = (case v of None \<Rightarrow> d | Some w \<Rightarrow> w)"

text \<open>\<open>{ ...layer, ...updates }\<close>: every key present in \<open>updates\<close> overrides the layer's.\<close>

definition merge :: "layer \<Rightarrow> partial \<Rightarrow> layer" where
  "merge l u =
     \<lparr>id_l = or_else (p_id u) (id_l l), type_l = or_else (p_type u) (type_l l),
      position = or_else (p_position u) (position l), scale = or_else (p_scale u) (scale l),
      rotation = (case p_rotation u of None \<Rightarrow> rotation l | Some r \<Rightarrow> Some r),
      opacity = or_else (p_opacity u) (opacity l), zIndex = or_else (p_zIndex u) (zIndex l),
      locked = or_else (p_locked u) (locked l), visible = or_else (p_visible u) (visible l),
      version = or_else (p_version u) (version l),
      texturePath = or_else (p_texturePath u) (texturePath l)\<rparr>"

text \<open>A layer object seen as a \<open>Partial<Layer>\<close> (no conversion at run time).\<close>

definition to_partial :: "layer \<Rightarrow> partial" where
  "to_partial l =
     \<lparr>p_id = Some (id_l l), p_type = Some (type_l l), p_position = Some (position l),
      p_scale = Some (scale l), p_rotation = rotation l, p_opacity = Some (opacity l),
      p_zIndex = Some (zIndex l), p_locked = Some (locked l), p_visible = Some (visible l),
      p_version = Some (version l), p_texturePath = Some (texturePath l)\<rparr>"

definition no_fields :: partial where
  "no_fields =
     \<lparr>p_id = None, p_type = None, p_position = None, p_scale = None, p_rotation = None,
      p_opacity = None, p_zIndex = None, p_locked = None, p_visible = None,
      p_version = None, p_texturePath = None\<rparr>"

text \<open>
  The type assertion \<open>snapshot as Layer\<close>. At run time it does nothing; the object is a
  \<open>Layer\<close> when every mandatory key is present. \<open>None\<close>: the object is not a layer.
\<close>

fun as_Layer :: "snapshot \<Rightarrow> layer option" where
  "as_Layer (Fields p) =
     do {
       i \<leftarrow> p_id p; t \<leftarrow> p_type p; po \<leftarrow> p_position p; sc \<leftarrow> p_scale p;
       op \<leftarrow> p_opacity p; z \<leftarrow> p_zIndex p; lo \<leftarrow> p_locked p; vi \<leftarrow> p_visible p;
       ve \<leftarrow> p_version p; tp \<leftarrow> p_texturePath p;
       Some \<lparr>id_l = i, type_l = t, position = po, scale = sc, rotation = p_rotation p,
             opacity = op, zIndex = z, locked = lo, visible = vi, version = ve,
             texturePath = tp\<rparr>
     }"
| "as_Layer (LayersSnap ls) = None"

text \<open>\<open>{ ...layer, ...snapshot }\<close>. Spreading \<open>{ layers: [...] }\<close> changes no layer field (the
  extra \<open>layers\<close> key it adds is not a field of \<open>Layer\<close>).\<close>

fun spread :: "layer \<Rightarrow> snapshot \<Rightarrow> layer" where
  "spread l (Fields p) = merge l p"
| "spread l (LayersSnap ls) = l"

section \<open>The history log\<close>

text \<open>\<open>handleLayerChange\<close>: \<open>setLayers(newLayers)\<close>, then the notification.\<close>

definition handleLayerChange :: "layer list \<Rightarrow> state \<Rightarrow> state" where
  "handleLayerChange newLayers s = s\<lparr>layers := newLayers\<rparr>"

text \<open>\<open>{ ...action, timestamp: Date.now() }\<close>\<close>

definition stamp :: "action \<Rightarrow> nat \<Rightarrow> HistoryAction" where
  "stamp a now =
     \<lparr>type_a = type_a a, layerId = layerId a, before = before a, after = after a,
      timestamp = now\<rparr>"

text \<open>\<open>addHistoryAction\<close>; \<open>now\<close> is the value \<open>Date.now()\<close> returns.\<close>

definition addHistoryAction :: "action \<Rightarrow> nat \<Rightarrow> state \<Rightarrow> state" where
  "addHistoryAction a now s =
     (if isUndoRedoInProgress s \<or> isBatchingActions s then s
      else
        let newHistory = slice 0 (historyIndex s + 1) (history s);
            updatedHistory = newHistory @ [stamp a now]
        in s\<lparr>history :=
               (if length updatedHistory > MAX_HISTORY_SIZE
                then slice_from (int (length updatedHistory) - int MAX_HISTORY_SIZE)
                       updatedHistory
                else updatedHistory),
             historyIndex := min (historyIndex s + 1) (int MAX_HISTORY_SIZE - 1)\<rparr>)"

definition startBatch :: "state \<Rightarrow> state" where
  "startBatch s = s\<lparr>isBatchingActions := True\<rparr>"

definition endBatch :: "state \<Rightarrow> state" where
  "endBatch s = s\<lparr>isBatchingActions := False\<rparr>"

section \<open>Layer operations\<close>

text \<open>\<open>layers.find(layer => layer.id === id)\<close>\<close>

definition find_layer :: "string \<Rightarrow> layer list \<Rightarrow> layer option" where
  "find_layer i ls = find (\<lambda>l. id_l l = i) ls"

text \<open>\<open>addLayer\<close>. \<open>now\<close> is the clock reading that makes the id, \<open>now'\<close> the one that
  stamps the history action. Returns the id.\<close>

definition addLayer :: "layer_spec \<Rightarrow> nat \<Rightarrow> nat \<Rightarrow> state \<Rightarrow> string \<times> state" where
  "addLayer newLayer now now' s =
     (let i = ''layer_'' @ decimal now;
          layer = with_id newLayer i;
          s1 = s\<lparr>layers := layers s @ [layer]\<rparr>;
          s2 = addHistoryAction
                 \<lparr>type_a = Add, layerId = Some i, before = None,
                  after = Some (Fields (to_partial layer))\<rparr> now' s1
      in (i, handleLayerChange (layers s @ [layer]) s2))"

definition removeLayer :: "string \<Rightarrow> nat \<Rightarrow> state \<Rightarrow> state" where
  "removeLayer i now s =
     (case find_layer i (layers s) of
        None \<Rightarrow> s
      | Some layerToRemove \<Rightarrow>
          let s1 = handleLayerChange (filter (\<lambda>l. id_l l \<noteq> i) (layers s)) s;
              s2 = addHistoryAction
                     \<lparr>type_a = Remove, layerId = Some i,
                      before = Some (Fields (to_partial layerToRemove)), after = None\<rparr> now s1
          in if selectedLayerId s = Some i then s2\<lparr>selectedLayerId := None\<rparr> else s2)"

definition updateLayer :: "string \<Rightarrow> partial \<Rightarrow> nat \<Rightarrow> state \<Rightarrow> state" where
  "updateLayer i updates now s =
     (case find_layer i (layers s) of
        None \<Rightarrow> s
      | Some layerToUpdate \<Rightarrow>
          let s1 = handleLayerChange
                     (map (\<lambda>l. if id_l l = i then merge l updates else l) (layers s)) s
          in addHistoryAction
               \<lparr>type_a = Update, layerId = Some i,
                before = Some (Fields (to_partial layerToUpdate)),
                after = Some (Fields (to_partial (merge layerToUpdate updates)))\<rparr> now s1)"

definition moveLayer :: "string \<Rightarrow> xy \<Rightarrow> nat \<Rightarrow> state \<Rightarrow> state" where
  "moveLayer i pos now s =
     (case find_layer i (layers s) of
        None \<Rightarrow> s
      | Some layerToMove \<Rightarrow>
          let s1 = handleLayerChange
                     (map (\<lambda>l. if id_l l = i then l\<lparr>position := pos\<rparr> else l) (layers s)) s
          in addHistoryAction
               \<lparr>type_a = Move, layerId = Some i,
                before = Some (Fields (no_fields\<lparr>p_position := Some (position layerToMove)\<rparr>)),
                after = Some (Fields (no_fields\<lparr>p_position := Some pos\<rparr>))\<rparr> now s1)"

text \<open>\<open>new Map(layers.map(layer => [layer.id, layer]))\<close>: of two entries with one key the
  later one stays.\<close>

definition layerMap :: "layer list \<Rightarrow> string \<Rightarrow> layer option" where
  "layerMap ls = map_of (rev (map (\<lambda>l. (id_l l, l)) ls))"

text \<open>\<open>xs.map((x, index) => ...)\<close>: the elements with their indices.\<close>

definition indexed :: "'a list \<Rightarrow> (nat \<times> 'a) list" where
  "indexed xs = enumerate 0 xs"

definition reorderLayers :: "string list \<Rightarrow> nat \<Rightarrow> state \<Rightarrow> state" where
  "reorderLayers orderedIds now s =
     (let oldLayers = layers s;
          updated = List.map_filter
                      (\<lambda>(index, i). map_option (\<lambda>l. l\<lparr>zIndex := of_nat index\<rparr>)
                                       (layerMap (layers s) i))
                      (indexed orderedIds);
          s1 = handleLayerChange updated s
      in addHistoryAction
           \<lparr>type_a = Reorder, layerId = None, before = Some (LayersSnap oldLayers),
            after = Some (LayersSnap
                      (map (\<lambda>(index, l). l\<lparr>zIndex := of_nat index\<rparr>) (indexed (layers s))))\<rparr>
           now s1)"

definition selectLayer :: "string option \<Rightarrow> state \<Rightarrow> state" where
  "selectLayer i s = s\<lparr>selectedLayerId := i\<rparr>"

definition setPoints :: "point list \<Rightarrow> state \<Rightarrow> state" where
  "setPoints points s = s\<lparr>mapPoints := points\<rparr>"

definition clearLayers :: "nat \<Rightarrow> state \<Rightarrow> state" where
  "clearLayers now s =
     (let oldLayers = layers s;
          s1 = (handleLayerChange [] (s\<lparr>layers := []\<rparr>))\<lparr>selectedLayerId := None\<rparr>
      in addHistoryAction
           \<lparr>type_a = Remove, layerId = None, before = Some (LayersSnap oldLayers),
            after = None\<rparr> now s1)"

section \<open>Derived values\<close>

text \<open>\<open>selectedLayerId ? layers.find(...) || null : null\<close>\<close>

definition selectedLayer :: "state \<Rightarrow> layer option" where
  "selectedLayer s =
     (if truthy (selectedLayerId s) then
        (case selectedLayerId s of None \<Rightarrow> None | Some i \<Rightarrow> find_layer i (layers s))
      else None)"

definition canUndo :: "state \<Rightarrow> bool" where
  "canUndo s = (historyIndex s \<ge> 0)"

definition canRedo :: "state \<Rightarrow> bool" where
  "canRedo s = (historyIndex s < int (length (history s)) - 1)"

section \<open>Undo and redo\<close>

text \<open>
  What a call can end in besides a new state. \<open>TypeError\<close>: \<open>history[i]\<close> is
  \<open>undefined\<close> and reading its \<open>type\<close> throws; the \<open>finally\<close> block has run, and the
  argument is the state it leaves. \<open>NotALayer\<close>: the call appends to the collection, under
  \<open>as Layer\<close>, a snapshot that is not a layer; the collection is then no list of layers.
\<close>

datatype failure = TypeError state | NotALayer

text \<open>The \<open>finally\<close> block: the ref is reset and the cursor moves by \<open>d\<close>.\<close>

definition finish :: "int \<Rightarrow> state \<Rightarrow> state \<Rightarrow> state" where
  "finish d s s' = s'\<lparr>isUndoRedoInProgress := False, historyIndex := historyIndex s + d\<rparr>"

definition undo :: "state \<Rightarrow> failure + state" where
  "undo s =
     (if historyIndex s < 0 then Inr s
      else
        case at_index (history s) (historyIndex s) of
          None \<Rightarrow> Inl (TypeError (finish (- 1) s s))
        | Some a \<Rightarrow>
            (case type_a a of
               Add \<Rightarrow>
                 if truthy (layerId a)
                 then Inr (finish (- 1) s
                        (handleLayerChange
                           (filter (\<lambda>l. Some (id_l l) \<noteq> layerId a) (layers s)) s))
                 else Inr (finish (- 1) s s)
             | Remove \<Rightarrow>
                 (case before a of
                    Some b \<Rightarrow>
                      if truthy (layerId a)
                      then (case as_Layer b of
                              Some l \<Rightarrow>
                                Inr (finish (- 1) s (handleLayerChange (layers s @ [l]) s))
                            | None \<Rightarrow> Inl NotALayer)
                      else Inr (finish (- 1) s s)
                  | None \<Rightarrow> Inr (finish (- 1) s s))
             | Reorder \<Rightarrow>
                 (case before a of
                    Some (LayersSnap ls) \<Rightarrow> Inr (finish (- 1) s (handleLayerChange ls s))
                  | _ \<Rightarrow> Inr (finish (- 1) s s))
             | _ \<Rightarrow>
                 (case before a of
                    Some b \<Rightarrow>
                      if truthy (layerId a)
                      then Inr (finish (- 1) s
                             (handleLayerChange
                                (map (\<lambda>l. if Some (id_l l) = layerId a then spread l b else l)
                                   (layers s)) s))
                      else Inr (finish (- 1) s s)
                  | None \<Rightarrow> Inr (finish (- 1) s s))))"

definition redo :: "state \<Rightarrow> failure + state" where
  "redo s =
     (if historyIndex s \<ge> int (length (history s)) - 1 then Inr s
      else
        case at_index (history s) (historyIndex s + 1) of
          None \<Rightarrow> Inl (TypeError (finish 1 s s))
        | Some a \<Rightarrow>
            (case type_a a of
               Add \<Rightarrow>
                 (case after a of
                    Some b \<Rightarrow>
                      (case as_Layer b of
                         Some l \<Rightarrow> Inr (finish 1 s (handleLayerChange (layers s @ [l]) s))
                       | None \<Rightarrow> Inl NotALayer)
                  | None \<Rightarrow> Inr (finish 1 s s))
             | Remove \<Rightarrow>
                 if truthy (layerId a)
                 then Inr (finish 1 s
                        (handleLayerChange
                           (filter (\<lambda>l. Some (id_l l) \<noteq> layerId a) (layers s)) s))
                 else Inr (finish 1 s s)
             | Reorder \<Rightarrow>
                 (case after a of
                    Some (LayersSnap ls) \<Rightarrow> Inr (finish 1 s (handleLayerChange ls s))
                  | _ \<Rightarrow> Inr (finish 1 s s))
             | _ \<Rightarrow>
                 (case after a of
                    Some b \<Rightarrow>
                      if truthy (layerId a)
                      then Inr (finish 1 s
                             (handleLayerChange
                                (map (\<lambda>l. if Some (id_l l) = layerId a then spread l b else l)
                                   (layers s)) s))
                      else Inr (finish 1 s s)
                  | None \<Rightarrow> Inr (finish 1 s s))))"

section \<open>Sequences of calls\<close>

datatype op =
    AddLayer layer_spec nat nat
  | RemoveLayer string nat
  | UpdateLayer string partial nat
  | MoveLayer string xy nat
  | ReorderLayers "string list" nat
  | SelectLayer "string option"
  | ClearLayers nat
  | Undo
  | Redo
  | StartBatch
  | EndBatch
  | SetPoints "point list"

fun step :: "op \<Rightarrow> state \<Rightarrow> failure + state" where
  "step (AddLayer sp now now') s = Inr (snd (addLayer sp now now' s))"
| "step (RemoveLayer i now) s = Inr (removeLayer i now s)"
| "step (UpdateLayer i u now) s = Inr (updateLayer i u now s)"
| "step (MoveLayer i pos now) s = Inr (moveLayer i pos now s)"
| "step (ReorderLayers ids now) s = Inr (reorderLayers ids now s)"
| "step (SelectLayer i) s = Inr (selectLayer i s)"
| "step (ClearLayers now) s = Inr (clearLayers now s)"
| "step Undo s = undo s"
| "step Redo s = redo s"
| "step StartBatch s = Inr (startBatch s)"
| "step EndBatch s = Inr (endBatch s)"
| "step (SetPoints ps) s = Inr (setPoints ps s)"

text \<open>A sequence of calls, each made from a render of its own, on the state the call
  before it left; an uncaught failure ends it.\<close>

fun exec :: "op list \<Rightarrow> state \<Rightarrow> failure + state" where
  "exec [] s = Inr s"
| "exec (c # cs) s = (case step c s of Inl e \<Rightarrow> Inl e | Inr s' \<Rightarrow> exec cs s')"

section \<open>Calls that share a render\<close>

text \<open>
  The calls that one event handler makes all come from the render that created the
  handler: their closures hold the values of that render, the state setters only queue
  their updates, and a functional updater receives as \<open>prev\<close> the value that the updates
  queued so far produce. In the functions of this section \<open>c\<close> is the state of the render
  that made the closures (what the code reads as \<open>layers\<close>, \<open>selectedLayerId\<close>,
  \<open>history\<close>, \<open>historyIndex\<close>, \<open>isBatchingActions\<close>) and \<open>p\<close> the state that the queued
  updates produce so far (what an updater reads as \<open>prev\<close>). The ref
  \<open>isUndoRedoInProgress\<close> is no state cell: it is read and written at once, so it is read
  from \<open>p\<close>. The operations of the sections above are these functions with \<open>c\<close> and \<open>p\<close>
  the same state: a call on a freshly rendered hook.
\<close>

definition addHistoryAction_in :: "action \<Rightarrow> nat \<Rightarrow> state \<Rightarrow> state \<Rightarrow> state" where
  "addHistoryAction_in a now c p =
     (if isUndoRedoInProgress p \<or> isBatchingActions c then p
      else
        let newHistory = slice 0 (historyIndex c + 1) (history p);
            updatedHistory = newHistory @ [stamp a now]
        in p\<lparr>history :=
               (if length updatedHistory > MAX_HISTORY_SIZE
                then slice_from (int (length updatedHistory) - int MAX_HISTORY_SIZE)
                       updatedHistory
                else updatedHistory),
             historyIndex := min (historyIndex p + 1) (int MAX_HISTORY_SIZE - 1)\<rparr>)"

definition addLayer_in ::
  "layer_spec \<Rightarrow> nat \<Rightarrow> nat \<Rightarrow> state \<Rightarrow> state \<Rightarrow> string \<times> state" where
  "addLayer_in newLayer now now' c p =
     (let i = ''layer_'' @ decimal now;
          layer = with_id newLayer i;
          p1 = p\<lparr>layers := layers p @ [layer]\<rparr>;
          p2 = addHistoryAction_in
                 \<lparr>type_a = Add, layerId = Some i, before = None,
                  after = Some (Fields (to_partial layer))\<rparr> now' c p1
      in (i, handleLayerChange (layers c @ [layer]) p2))"

definition removeLayer_in :: "string \<Rightarrow> nat \<Rightarrow> state \<Rightarrow> state \<Rightarrow> state" where
  "removeLayer_in i now c p =
     (case find_layer i (layers c) of
        None \<Rightarrow> p
      | Some layerToRemove \<Rightarrow>
          let p1 = handleLayerChange (filter (\<lambda>l. id_l l \<noteq> i) (layers p)) p;
              p2 = addHistoryAction_in
                     \<lparr>type_a = Remove, layerId = Some i,
                      before = Some (Fields (to_partial layerToRemove)), after = None\<rparr>
                     now c p1
          in if selectedLayerId c = Some i then p2\<lparr>selectedLayerId := None\<rparr> else p2)"

definition updateLayer_in ::
  "string \<Rightarrow> partial \<Rightarrow> nat \<Rightarrow> state \<Rightarrow> state \<Rightarrow> state" where
  "updateLayer_in i updates now c p =
     (case find_layer i (layers c) of
        None \<Rightarrow> p
      | Some layerToUpdate \<Rightarrow>
          let p1 = handleLayerChange
                     (map (\<lambda>l. if id_l l = i then merge l updates else l) (layers p)) p
          in addHistoryAction_in
               \<lparr>type_a = Update, layerId = Some i,
                before = Some (Fields (to_partial layerToUpdate)),
                after = Some (Fields (to_partial (merge layerToUpdate updates)))\<rparr> now c p1)"

definition moveLayer_in :: "string \<Rightarrow> xy \<Rightarrow> nat \<Rightarrow> state \<Rightarrow> state \<Rightarrow> state" where
  "moveLayer_in i pos now c p =
     (case find_layer i (layers c) of
        None \<Rightarrow> p
      | Some layerToMove \<Rightarrow>
          let p1 = handleLayerChange
                     (map (\<lambda>l. if id_l l = i then l\<lparr>position := pos\<rparr> else l) (layers p)) p
          in addHistoryAction_in
               \<lparr>type_a = Move, layerId = Some i,
                before = Some (Fields (no_fields\<lparr>p_position := Some (position layerToMove)\<rparr>)),
                after = Some (Fields (no_fields\<lparr>p_position := Some pos\<rparr>))\<rparr> now c p1)"

definition reorderLayers_in :: "string list \<Rightarrow> nat \<Rightarrow> state \<Rightarrow> state \<Rightarrow> state" where
  "reorderLayers_in orderedIds now c p =
     (let oldLayers = layers c;
          updated = List.map_filter
                      (\<lambda>(index, i). map_option (\<lambda>l. l\<lparr>zIndex := of_nat index\<rparr>)
                                       (layerMap (layers c) i))
                      (indexed orderedIds);
          p1 = handleLayerChange updated p
      in addHistoryAction_in
           \<lparr>type_a = Reorder, layerId = None, before = Some (LayersSnap oldLayers),
            after = Some (LayersSnap
                      (map (\<lambda>(index, l). l\<lparr>zIndex := of_nat index\<rparr>) (indexed (layers c))))\<rparr>
           now c p1)"

definition clearLayers_in :: "nat \<Rightarrow> state \<Rightarrow> state \<Rightarrow> state" where
  "clearLayers_in now c p =
     (let oldLayers = layers c;
          p1 = (handleLayerChange [] (p\<lparr>layers := []\<rparr>))\<lparr>selectedLayerId := None\<rparr>
      in addHistoryAction_in
           \<lparr>type_a = Remove, layerId = None, before = Some (LayersSnap oldLayers),
            after = None\<rparr> now c p1)"

text \<open>\<open>undo\<close> and \<open>redo\<close> test the cursor and read the action from the render; their
  updaters work on \<open>prev\<close>, and the \<open>finally\<close> block moves the cursor from its \<open>prev\<close>.\<close>

definition undo_in :: "state \<Rightarrow> state \<Rightarrow> failure + state" where
  "undo_in c p =
     (if historyIndex c < 0 then Inr p
      else
        case at_index (history c) (historyIndex c) of
          None \<Rightarrow> Inl (TypeError (finish (- 1) p p))
        | Some a \<Rightarrow>
            (case type_a a of
               Add \<Rightarrow>
                 if truthy (layerId a)
                 then Inr (finish (- 1) p
                        (handleLayerChange
                           (filter (\<lambda>l. Some (id_l l) \<noteq> layerId a) (layers p)) p))
                 else Inr (finish (- 1) p p)
             | Remove \<Rightarrow>
                 (case before a of
                    Some b \<Rightarrow>
                      if truthy (layerId a)
                      then (case as_Layer b of
                              Some l \<Rightarrow>
                                Inr (finish (- 1) p (handleLayerChange (layers p @ [l]) p))
                            | None \<Rightarrow> Inl NotALayer)
                      else Inr (finish (- 1) p p)
                  | None \<Rightarrow> Inr (finish (- 1) p p))
             | Reorder \<Rightarrow>
                 (case before a of
                    Some (LayersSnap ls) \<Rightarrow> Inr (finish (- 1) p (handleLayerChange ls p))
                  | _ \<Rightarrow> Inr (finish (- 1) p p))
             | _ \<Rightarrow>
                 (case before a of
                    Some b \<Rightarrow>
                      if truthy (layerId a)
                      then Inr (finish (- 1) p
                             (handleLayerChange
                                (map (\<lambda>l. if Some (id_l l) = layerId a then spread l b else l)
                                   (layers p)) p))
                      else Inr (finish (- 1) p p)
                  | None \<Rightarrow> Inr (finish (- 1) p p))))"

definition redo_in :: "state \<Rightarrow> state \<Rightarrow> failure + state" where
  "redo_in c p =
     (if historyIndex c \<ge> int (length (history c)) - 1 then Inr p
      else
        case at_index (history c) (historyIndex c + 1) of
          None \<Rightarrow> Inl (TypeError (finish 1 p p))
        | Some a \<Rightarrow>
            (case type_a a of
               Add \<Rightarrow>
                 (case after a of
                    Some b \<Rightarrow>
                      (case as_Layer b of
                         Some l \<Rightarrow> Inr (finish 1 p (handleLayerChange (layers p @ [l]) p))
                       | None \<Rightarrow> Inl NotALayer)
                  | None \<Rightarrow> Inr (finish 1 p p))
             | Remove \<Rightarrow>
                 if truthy (layerId a)
                 then Inr (finish 1 p
                        (handleLayerChange
                           (filter (\<lambda>l. Some (id_l l) \<noteq> layerId a) (layers p)) p))
                 else Inr (finish 1 p p)
             | Reorder \<Rightarrow>
                 (case after a of
                    Some (LayersSnap ls) \<Rightarrow> Inr (finish 1 p (handleLayerChange ls p))
                  | _ \<Rightarrow> Inr (finish 1 p p))
             | _ \<Rightarrow>
                 (case after a of
                    Some b \<Rightarrow>
                      if truthy (layerId a)
                      then Inr (finish 1 p
                             (handleLayerChange
                                (map (\<lambda>l. if Some (id_l l) = layerId a then spread l b else l)
                                   (layers p)) p))
                      else Inr (finish 1 p p)
                  | None \<Rightarrow> Inr (finish 1 p p))))"

fun step_in :: "state \<Rightarrow> op \<Rightarrow> state \<Rightarrow> failure + state" where
  "step_in c (AddLayer sp now now') p = Inr (snd (addLayer_in sp now now' c p))"
| "step_in c (RemoveLayer i now) p = Inr (removeLayer_in i now c p)"
| "step_in c (UpdateLayer i u now) p = Inr (updateLayer_in i u now c p)"
| "step_in c (MoveLayer i pos now) p = Inr (moveLayer_in i pos now c p)"
| "step_in c (ReorderLayers ids now) p = Inr (reorderLayers_in ids now c p)"
| "step_in c (SelectLayer i) p = Inr (selectLayer i p)"
| "step_in c (ClearLayers now) p = Inr (clearLayers_in now c p)"
| "step_in c Undo p = undo_in c p"
| "step_in c Redo p = redo_in c p"
| "step_in c StartBatch p = Inr (startBatch p)"
| "step_in c EndBatch p = Inr (endBatch p)"
| "step_in c (SetPoints ps) p = Inr (setPoints ps p)"

text \<open>The calls of one event handler, all from the render \<open>c\<close>; an uncaught failure ends
  the handler.\<close>

fun handler :: "state \<Rightarrow> op list \<Rightarrow> state \<Rightarrow> failure + state" where
  "handler c [] p = Inr p"
| "handler c (x # xs) p =
     (case step_in c x p of Inl e \<Rightarrow> Inl e | Inr p' \<Rightarrow> handler c xs p')"

text \<open>A sequence of event handlers. The hook renders after each: the next handler comes
  from the state that the one before it left.\<close>

fun renders :: "op list list \<Rightarrow> state \<Rightarrow> failure + state" where
  "renders [] s = Inr s"
| "renders (h # hs) s =
     (case handler s h s of Inl e \<Rightarrow> Inl e | Inr s' \<Rightarrow> renders hs s')"

text \<open>Recording alone: the \<open>addHistoryAction\<close> calls of one render, each with the clock
  reading of the call, and a sequence of renders with such calls.\<close>

fun record_in :: "state \<Rightarrow> (action \<times> nat) list \<Rightarrow> state \<Rightarrow> state" where
  "record_in c [] p = p"
| "record_in c ((a, now) # rest) p = record_in c rest (addHistoryAction_in a now c p)"

fun record_renders :: "(action \<times> nat) list list \<Rightarrow> state \<Rightarrow> state" where
  "record_renders [] s = s"
| "record_renders (h # hs) s = record_renders hs (record_in s h s)"

text \<open>The length of the log and the cursor that a run ends with, when it ends in a
  state.\<close>

definition log_of :: "failure + state \<Rightarrow> (nat \<times> int) option" where
  "log_of r = (case r of Inl e \<Rightarrow> None | Inr s \<Rightarrow> Some (length (history s), historyIndex s))"

text \<open>The cursor is on the last entry of a log within its capacity, and nothing suppresses
  recording.\<close>

definition at_end :: "state \<Rightarrow> bool" where
  "at_end s \<longleftrightarrow> \<not> isUndoRedoInProgress s \<and> \<not> isBatchingActions s
     \<and> length (history s) \<le> MAX_HISTORY_SIZE
     \<and> historyIndex s = int (length (history s)) - 1"

text \<open>
  The shape of a recorded action that \<open>undo\<close> and \<open>redo\<close> rely on when they append a
  snapshot under \<open>as Layer\<close>: the \<open>after\<close> of an add, and the \<open>before\<close> of a remove that
  names a layer, are whole layers.
\<close>

definition action_ok :: "HistoryAction \<Rightarrow> bool" where
  "action_ok a \<longleftrightarrow>
     (type_a a = Add \<longrightarrow> (case after a of None \<Rightarrow> True | Some b \<Rightarrow> as_Layer b \<noteq> None)) \<and>
     (type_a a = Remove \<and> truthy (layerId a) \<longrightarrow>
        (case before a of None \<Rightarrow> True | Some b \<Rightarrow> as_Layer b \<noteq> None))"

text \<open>The cursor is -1 or the position of an entry of the log, and every entry has the
  shape above.\<close>

definition well_formed :: "state \<Rightarrow> bool" where
  "well_formed s \<longleftrightarrow>
     - 1 \<le> historyIndex s \<and> historyIndex s < int (length (history s))
     \<and> list_all action_ok (history s)"

text \<open>A state in which a mutation is recorded: no batch is open, no replay is in progress,
  and the cursor is -1 or the position of an entry of the log.\<close>

definition recording :: "state \<Rightarrow> bool" where
  "recording s \<longleftrightarrow> \<not> isUndoRedoInProgress s \<and> \<not> isBatchingActions s
     \<and> - 1 \<le> historyIndex s \<and> historyIndex s < int (length (history s))"

text \<open>The action \<open>undo\<close> reads, and the action \<open>redo\<close> reads.\<close>

definition cursor_on :: "state \<Rightarrow> HistoryAction \<Rightarrow> bool" where
  "cursor_on s a \<longleftrightarrow> 0 \<le> historyIndex s \<and> at_index (history s) (historyIndex s) = Some a"

definition redo_ready :: "state \<Rightarrow> HistoryAction \<Rightarrow> bool" where
  "redo_ready s a \<longleftrightarrow> historyIndex s < int (length (history s)) - 1
     \<and> at_index (history s) (historyIndex s + 1) = Some a"

text \<open>The layer collection a call or a sequence of calls ends with, when it ends in a
  state.\<close>

definition layers_of :: "failure + state \<Rightarrow> layer list option" where
  "layers_of r = (case r of Inl e \<Rightarrow> None | Inr s \<Rightarrow> Some (layers s))"

section \<open>The render synchronizer\<close>

text \<open>
  The effect of the canvas component that calls \<open>renderLayers\<close>. JavaScript runs it on one
  thread: a pass runs without interruption up to \<open>await PIXI.Assets.load(...)\<close>, its only
  suspension point, and goes on, again without interruption, when that load has
  completed or failed. Between the two, other passes may start and other loads may
  complete. The model is the state of the rendering surface together with the suspended
  passes, and one function for each of these events. A texture is identified by its
  path, a sprite object by a number given at its creation. The PIXI application is
  taken to be alive throughout.
\<close>

record sprite =
  sp_texture :: string
  sp_position :: xy
  sp_scale :: number
  sp_rotation :: number
  sp_alpha :: number
  sp_interactive :: bool
  sp_cursor :: string
  sp_pointerdown :: "layer option"

text \<open>A pass suspended at the \<open>await\<close>: the layer whose texture it waits for, and the
  layers of \<open>sortedLayers\<close> after it.\<close>

record pass =
  awaiting :: layer
  remaining :: "layer list"

record renderer =
  stage :: "(nat \<times> sprite) list"
  layersRef :: "(string \<times> nat) list"
  textureCache :: "string set"
  fresh :: nat
  pending :: "pass list"

definition new_renderer :: renderer where
  "new_renderer = \<lparr>stage = [], layersRef = [], textureCache = {}, fresh = 0, pending = []\<rparr>"

text \<open>\<open>Map.prototype.set\<close>: the value of a key that is present is replaced in place.\<close>

fun map_set :: "'k \<Rightarrow> 'v \<Rightarrow> ('k \<times> 'v) list \<Rightarrow> ('k \<times> 'v) list" where
  "map_set k v [] = [(k, v)]"
| "map_set k v ((k', v') # m) = (if k' = k then (k, v) # m else (k', v') # map_set k v m)"

text \<open>The body of the loop after the texture is there: the sprite is created from the
  layer, added to the stage and stored under the layer's id. The \<open>pointerdown\<close> handler
  is registered for an unlocked layer and hands that layer to \<open>onLayerSelect\<close>.\<close>

definition make_sprite :: "layer \<Rightarrow> sprite" where
  "make_sprite l =
     \<lparr>sp_texture = texturePath l, sp_position = position l, sp_scale = scale l,
      sp_rotation = (case rotation l of None \<Rightarrow> 0 | Some r \<Rightarrow> r),
      sp_alpha = opacity l, sp_interactive = (\<not> locked l),
      sp_cursor = (if locked l then ''default'' else ''pointer''),
      sp_pointerdown = (if locked l then None else Some l)\<rparr>"

definition add_sprite :: "layer \<Rightarrow> renderer \<Rightarrow> renderer" where
  "add_sprite l r =
     r\<lparr>stage := stage r @ [(fresh r, make_sprite l)],
       layersRef := map_set (id_l l) (fresh r) (layersRef r),
       fresh := Suc (fresh r)\<rparr>"

text \<open>The \<open>for\<close> loop from a position of \<open>sortedLayers\<close> on, up to its end or to the first
  layer whose texture is not cached, where the pass is suspended.\<close>

fun run_loop :: "layer list \<Rightarrow> renderer \<Rightarrow> renderer" where
  "run_loop [] r = r"
| "run_loop (l # rest) r =
     (if \<not> visible l then run_loop rest r
      else if texturePath l \<in> textureCache r then run_loop rest (add_sprite l r)
      else r\<lparr>pending := pending r @ [\<lparr>awaiting = l, remaining = rest\<rparr>]\<rparr>)"

text \<open>A pass starts: the sprites that \<open>layersRef\<close> holds are taken off the stage, the map is
  cleared, and the loop runs over the layers sorted by \<open>zIndex\<close> (the sort is stable).\<close>

definition renderLayers :: "layer list \<Rightarrow> renderer \<Rightarrow> renderer" where
  "renderLayers ls r =
     run_loop (sort_key zIndex ls)
       (r\<lparr>stage := filter (\<lambda>(n, sp). n \<notin> snd ` set (layersRef r)) (stage r),
          layersRef := []\<rparr>)"

text \<open>\<open>xs\<close> without its element at position \<open>k\<close>.\<close>

definition without :: "nat \<Rightarrow> 'a list \<Rightarrow> 'a list" where
  "without k xs = take k xs @ drop (Suc k) xs"

text \<open>The load that the suspended pass at position \<open>k\<close> waits for completes: the texture is
  cached and the pass goes on with the body of the loop.\<close>

definition loaded :: "nat \<Rightarrow> renderer \<Rightarrow> renderer" where
  "loaded k r =
     (if k < length (pending r) then
        let p = pending r ! k
        in run_loop (remaining p)
             (add_sprite (awaiting p)
                (r\<lparr>pending := without k (pending r),
                   textureCache := insert (texturePath (awaiting p)) (textureCache r)\<rparr>))
      else r)"

text \<open>The load fails: the \<open>catch\<close> block logs the error and the loop goes on with the next
  layer.\<close>

definition failed :: "nat \<Rightarrow> renderer \<Rightarrow> renderer" where
  "failed k r =
     (if k < length (pending r) then
        run_loop (remaining (pending r ! k)) (r\<lparr>pending := without k (pending r)\<rparr>)
      else r)"

datatype event = Render "layer list" | Loaded nat | Failed nat

fun occur :: "event \<Rightarrow> renderer \<Rightarrow> renderer" where
  "occur (Render ls) r = renderLayers ls r"
| "occur (Loaded k) r = loaded k r"
| "occur (Failed k) r = failed k r"

text \<open>The events of an interleaving, in the order in which they happen.\<close>

fun run :: "event list \<Rightarrow> renderer \<Rightarrow> renderer" where
  "run [] r = r"
| "run (e # es) r = run es (occur e r)"

text \<open>Every sprite on the stage is one that \<open>layersRef\<close> holds.\<close>

definition clean :: "renderer \<Rightarrow> bool" where
  "clean r \<longleftrightarrow> list_all (\<lambda>(n, sp). n \<in> snd ` set (layersRef r)) (stage r)"

section \<open>Example data\<close>

text \<open>The layer specification of the first scenario, and two layers made from it.\<close>

definition house :: layer_spec where
  "house =
     \<lparr>s_type = ''house'', s_position = \<lparr>pos_x = 100, pos_y = 100\<rparr>, s_scale = 1,
      s_rotation = None, s_opacity = 1, s_zIndex = 0, s_locked = False, s_visible = True,
      s_version = 1, s_texturePath = ''/a.svg''\<rparr>"

definition layerA :: layer where
  "layerA = with_id house ''a''"

definition layerB :: layer where
  "layerB = with_id (house\<lparr>s_zIndex := 7\<rparr>) ''b''"

text \<open>Twenty-one actions to record, each with its own layer id and clock reading.\<close>

definition sample_actions :: "(action \<times> nat) list" where
  "sample_actions =
     map (\<lambda>n. (\<lparr>type_a = Move, layerId = Some (decimal n), before = None, after = None\<rparr>,
               100 + n)) [0..<21]"

section \<open>Evaluation\<close>

text \<open>The definitions that the simplifier unfolds to run the model on concrete data.\<close>

lemmas eval_defs =
  initial_def layerA_def layerB_def with_id_def house_def no_fields_def merge_def
  or_else_def find_layer_def Let_def addHistoryAction_def handleLayerChange_def
  slice_def slice_from_def rel_index_def at_index_def MAX_HISTORY_SIZE_def stamp_def
  finish_def layers_of_def decimal.simps digit_def to_partial_def as_Layer.simps

section \<open>Unknown ids\<close>

lemma find_layer_None: "find_layer i ls = None \<longleftrightarrow> i \<notin> id_l ` set ls"
  by (auto simp: find_layer_def find_None_iff)

lemma find_layer_Some: "find_layer i ls = Some l \<Longrightarrow> l \<in> set ls \<and> id_l l = i"
  by (auto simp: find_layer_def find_Some_iff)

text \<open>
  C9. For an id that no layer of the store carries, \<open>removeLayer\<close>, \<open>updateLayer\<close> and
  \<open>moveLayer\<close> return without touching anything: the state after the call is the state
  before it (so the layer collection, the selection, the history log, \<open>historyIndex\<close>,
  \<open>canUndo\<close> and \<open>canRedo\<close> are what they were), and the call ends normally.
\<close>

theorem reference_miss_noop:
  assumes "i \<notin> id_l ` set (layers s)"
  shows "removeLayer i now s = s \<and> updateLayer i u now s = s \<and> moveLayer i pos now s = s
    \<and> step (RemoveLayer i now) s = Inr s \<and> step (UpdateLayer i u now) s = Inr s
    \<and> step (MoveLayer i pos now) s = Inr s"
proof -
  from assms have "find_layer i (layers s) = None"
    by (simp add: find_layer_None)
  then show ?thesis
    by (simp add: removeLayer_def updateLayer_def moveLayer_def)
qed

theorem reference_miss_noop_witness:
  "''nonexistent'' \<notin> id_l ` set (layers (initial [layerA]))
   \<and> removeLayer ''nonexistent'' 1 (initial [layerA]) = initial [layerA]
   \<and> updateLayer ''nonexistent'' (no_fields\<lparr>p_opacity := Some 0\<rparr>) 1 (initial [layerA])
       = initial [layerA]
   \<and> moveLayer ''nonexistent'' \<lparr>pos_x = 10, pos_y = 20\<rparr> 1 (initial [layerA])
       = initial [layerA]"
  using reference_miss_noop [of "''nonexistent''" "initial [layerA]" 1
      "no_fields\<lparr>p_opacity := Some 0\<rparr>" "\<lparr>pos_x = 10, pos_y = 20\<rparr>"]
  by (simp add: initial_def layerA_def with_id_def)

section \<open>A call from a fresh render\<close>

text \<open>With the render state and the pending state the same, the functions for calls that
  share a render are the operations on a freshly rendered hook.\<close>

lemma addHistoryAction_in_same: "addHistoryAction_in a now s s = addHistoryAction a now s"
  by (simp add: addHistoryAction_in_def addHistoryAction_def)

lemma addHistoryAction_in_fresh:
  "history p = history c \<Longrightarrow> historyIndex p = historyIndex c \<Longrightarrow>
   isBatchingActions p = isBatchingActions c \<Longrightarrow>
   addHistoryAction_in a now c p = addHistoryAction a now p"
  by (simp add: addHistoryAction_in_def addHistoryAction_def)

lemma addLayer_in_same: "addLayer_in sp now now' s s = addLayer sp now now' s"
  by (simp add: addLayer_in_def addLayer_def addHistoryAction_in_fresh Let_def)

lemma removeLayer_in_same: "removeLayer_in i now s s = removeLayer i now s"
  by (simp add: removeLayer_in_def removeLayer_def addHistoryAction_in_fresh Let_def
      handleLayerChange_def split: option.splits)

lemma updateLayer_in_same: "updateLayer_in i u now s s = updateLayer i u now s"
  by (simp add: updateLayer_in_def updateLayer_def addHistoryAction_in_fresh Let_def
      handleLayerChange_def split: option.splits)

lemma moveLayer_in_same: "moveLayer_in i pos now s s = moveLayer i pos now s"
  by (simp add: moveLayer_in_def moveLayer_def addHistoryAction_in_fresh Let_def
      handleLayerChange_def split: option.splits)

lemma reorderLayers_in_same: "reorderLayers_in ids now s s = reorderLayers ids now s"
  by (simp add: reorderLayers_in_def reorderLayers_def addHistoryAction_in_fresh Let_def
      handleLayerChange_def)

lemma clearLayers_in_same: "clearLayers_in now s s = clearLayers now s"
  by (simp add: clearLayers_in_def clearLayers_def addHistoryAction_in_fresh Let_def
      handleLayerChange_def)

lemma undo_in_same: "undo_in s s = undo s"
  by (simp add: undo_in_def undo_def)

lemma redo_in_same: "redo_in s s = redo s"
  by (simp add: redo_in_def redo_def)

lemma step_in_same: "step_in s x s = step x s"
  by (cases x)
    (simp_all add: addLayer_in_same removeLayer_in_same updateLayer_in_same
      moveLayer_in_same reorderLayers_in_same clearLayers_in_same undo_in_same redo_in_same)

lemma handler_single: "handler s [x] s = step x s"
  by (simp add: step_in_same split: sum.splits)

lemma renders_single: "renders (map (\<lambda>x. [x]) xs) s = exec xs s"
  by (induction xs arbitrary: s) (simp_all add: step_in_same split: sum.splits)

lemma renders_1: "renders [[x]] s = exec [x] s"
  using renders_single [of "[x]" s] by simp

lemma renders_2: "renders [[x], [y]] s = exec [x, y] s"
  using renders_single [of "[x, y]" s] by simp

lemma renders_3: "renders [[x], [y], [z]] s = exec [x, y, z] s"
  using renders_single [of "[x, y, z]" s] by simp

section \<open>Adding a layer\<close>

text \<open>
  C7, as the code has it. \<open>addLayer\<close> appends one layer to the collection: its id is the
  new id, which the call returns, and each of its other ten fields is the field of the
  specification, unchanged. In particular the stored opacity is the specification's
  opacity and the stored scale is its scale, whatever their values: the stored opacity
  lies in the interval from 0 to 1 exactly when the specification's does.
\<close>

theorem addLayer_stores_spec:
  "layers (snd (addLayer sp now now' s))
     = layers s @
       [\<lparr>id_l = ''layer_'' @ decimal now, type_l = s_type sp, position = s_position sp,
         scale = s_scale sp, rotation = s_rotation sp, opacity = s_opacity sp,
         zIndex = s_zIndex sp, locked = s_locked sp, visible = s_visible sp,
         version = s_version sp, texturePath = s_texturePath sp\<rparr>]
   \<and> fst (addLayer sp now now' s) = ''layer_'' @ decimal now
   \<and> opacity (last (layers (snd (addLayer sp now now' s)))) = s_opacity sp
   \<and> scale (last (layers (snd (addLayer sp now now' s)))) = s_scale sp"
  by (simp add: addLayer_def Let_def handleLayerChange_def with_id_def)

text \<open>C7 as stated fails: a specification with opacity 2 is stored with opacity 2.\<close>

theorem addLayer_opacity_counterexample:
  "\<not> (0 \<le> opacity (last (layers (snd (addLayer (house\<lparr>s_opacity := 2\<rparr>) 5 6 (initial [])))))
      \<and> opacity (last (layers (snd (addLayer (house\<lparr>s_opacity := 2\<rparr>) 5 6 (initial [])))))
          \<le> 1)"
  by (simp add: addLayer_def Let_def handleLayerChange_def with_id_def house_def)

section \<open>Capacity of the history log\<close>

lemma slice_0_take: "0 \<le> e \<Longrightarrow> slice 0 e xs = take (nat e) xs"
  by (simp add: slice_def rel_index_def Let_def min_def)

lemma slice_from_drop: "0 \<le> k \<Longrightarrow> slice_from k xs = drop (nat k) xs"
  by (simp add: slice_from_def rel_index_def min_def)

lemma addHistoryAction_at_end:
  assumes "at_end s"
  shows "history (addHistoryAction a now s)
           = drop (length (history s) + 1 - MAX_HISTORY_SIZE) (history s @ [stamp a now])"
    and "at_end (addHistoryAction a now s)"
  using assms
  by (auto simp: at_end_def addHistoryAction_def Let_def slice_0_take slice_from_drop
      MAX_HISTORY_SIZE_def nat_diff_distrib)

lemma record_renders_at_end:
  "at_end s \<Longrightarrow>
   at_end (record_renders (map (\<lambda>x. [x]) acts) s) \<and>
   history (record_renders (map (\<lambda>x. [x]) acts) s)
     = drop (length (history s) + length acts - MAX_HISTORY_SIZE)
         (history s @ map (\<lambda>(a, now). stamp a now) acts)"
proof (induction acts arbitrary: s)
  case Nil
  then show ?case by (simp add: at_end_def)
next
  case (Cons p acts)
  obtain a now where p: "p = (a, now)" by (cases p)
  let ?s1 = "addHistoryAction a now s"
  have e1: "at_end ?s1" and h1: "history ?s1
      = drop (length (history s) + 1 - MAX_HISTORY_SIZE) (history s @ [stamp a now])"
    using addHistoryAction_at_end [OF Cons.prems] by simp_all
  have len: "length (history s) \<le> MAX_HISTORY_SIZE"
    using Cons.prems by (simp add: at_end_def)
  have unfold: "record_renders (map (\<lambda>x. [x]) (p # acts)) s
      = record_renders (map (\<lambda>x. [x]) acts) ?s1"
    by (simp add: p addHistoryAction_in_same)
  have IH: "at_end (record_renders (map (\<lambda>x. [x]) acts) ?s1)"
    "history (record_renders (map (\<lambda>x. [x]) acts) ?s1)
       = drop (length (history ?s1) + length acts - MAX_HISTORY_SIZE)
           (history ?s1 @ map (\<lambda>(a, now). stamp a now) acts)"
    using Cons.IH [OF e1] by simp_all
  let ?ys = "map (\<lambda>(a, now). stamp a now) acts"
  have "drop (length (history ?s1) + length acts - MAX_HISTORY_SIZE) (history ?s1 @ ?ys)
      = drop (length (history s) + Suc (length acts) - MAX_HISTORY_SIZE)
          (history s @ stamp a now # ?ys)"
  proof (cases "length (history s) < MAX_HISTORY_SIZE")
    case True
    then have "history ?s1 = history s @ [stamp a now]"
      by (simp add: h1)
    then show ?thesis by simp
  next
    case False
    with len have full: "length (history s) = MAX_HISTORY_SIZE" by simp
    then have ne: "history s \<noteq> []" by (auto simp: MAX_HISTORY_SIZE_def)
    have h1': "history ?s1 = drop 1 (history s @ [stamp a now])"
      by (simp add: h1 full)
    from ne have a1: "history ?s1 @ ?ys = drop 1 (history s @ stamp a now # ?ys)"
      by (cases "history s") (simp_all add: h1')
    have a2: "length (history ?s1) = MAX_HISTORY_SIZE"
      by (simp add: h1' full)
    have b: "drop (length (history ?s1) + length acts - MAX_HISTORY_SIZE) (history ?s1 @ ?ys)
        = drop (Suc (length acts)) (history s @ stamp a now # ?ys)"
      unfolding a1 a2 by (simp only: diff_add_inverse drop_drop Suc_eq_plus1)
    have c: "length (history s) + Suc (length acts) - MAX_HISTORY_SIZE = Suc (length acts)"
      using full by simp
    show ?thesis
      unfolding c by (rule b)
  qed
  with IH show ?case
    unfolding unfold by (simp add: p)
qed

text \<open>
  C3, as the code has it. From an empty history (cursor at -1, no batch open, no replay
  in progress), let more than 20 actions be recorded one after the other, each by a call
  from a render of its own. Then the log has exactly 20 entries, they are the last 20
  actions recorded, in the order of recording, each with the type, layer id, \<open>before\<close>,
  \<open>after\<close> and clock reading it was recorded with, and \<open>historyIndex\<close> is 19, the
  position of the action recorded last.
\<close>

theorem history_capacity:
  assumes "history s = []" and "historyIndex s = - 1"
    and "\<not> isBatchingActions s" and "\<not> isUndoRedoInProgress s"
    and "length acts > 20"
  shows "length (history (record_renders (map (\<lambda>x. [x]) acts) s)) = 20
    \<and> map (\<lambda>h. (type_a h, layerId h, before h, after h, timestamp h))
          (history (record_renders (map (\<lambda>x. [x]) acts) s))
        = drop (length acts - 20)
            (map (\<lambda>(a, now). (type_a a, layerId a, before a, after a, now)) acts)
    \<and> historyIndex (record_renders (map (\<lambda>x. [x]) acts) s) = 19"
proof -
  have "at_end s" using assms by (simp add: at_end_def)
  from record_renders_at_end [OF this, of acts] assms
  have e: "at_end (record_renders (map (\<lambda>x. [x]) acts) s)"
    and h: "history (record_renders (map (\<lambda>x. [x]) acts) s)
      = drop (length acts - 20) (map (\<lambda>(a, now). stamp a now) acts)"
    by (simp_all add: MAX_HISTORY_SIZE_def)
  have len: "length (history (record_renders (map (\<lambda>x. [x]) acts) s)) = 20"
    using assms(5) by (simp add: h)
  have idx: "historyIndex (record_renders (map (\<lambda>x. [x]) acts) s) = 19"
    using e len by (simp add: at_end_def)
  have "(\<lambda>h. (type_a h, layerId h, before h, after h, timestamp h)) \<circ> (\<lambda>(a, now). stamp a now)
      = (\<lambda>(a, now). (type_a a, layerId a, before a, after a, now))"
    by (auto simp: stamp_def)
  then have "map (\<lambda>h. (type_a h, layerId h, before h, after h, timestamp h))
        (history (record_renders (map (\<lambda>x. [x]) acts) s))
      = drop (length acts - 20)
          (map (\<lambda>(a, now). (type_a a, layerId a, before a, after a, now)) acts)"
    by (simp add: h drop_map)
  with len idx show ?thesis by simp
qed

theorem history_capacity_witness:
  "length sample_actions > 20
   \<and> length (history (record_renders (map (\<lambda>x. [x]) sample_actions) (initial []))) = 20
   \<and> map (\<lambda>h. (type_a h, layerId h, before h, after h, timestamp h))
         (history (record_renders (map (\<lambda>x. [x]) sample_actions) (initial [])))
       = map (\<lambda>n. (Move, Some (decimal n), None, None, 100 + n)) [1..<21]
   \<and> historyIndex (record_renders (map (\<lambda>x. [x]) sample_actions) (initial [])) = 19"
  using history_capacity [of "initial []" sample_actions]
  by (simp add: initial_def sample_actions_def drop_map comp_def)

text \<open>
  C3 as stated fails when the recordings share a render: \<open>addHistoryAction\<close> cuts the
  pending log at the cursor of the render, so each of the 21 recordings of one render
  starts from the empty log again, while the cursor counts all of them. One entry is
  left, with the cursor at 19. The same happens through the public operations: 21
  \<open>moveLayer\<close> calls of one event handler leave one entry; the same calls from a render
  each leave 20.
\<close>

theorem capacity_one_render_counterexample:
  "length sample_actions = 21
   \<and> length (history (record_renders [sample_actions] (initial []))) = 1
   \<and> historyIndex (record_renders [sample_actions] (initial [])) = 19
   \<and> log_of (renders [replicate 21 (MoveLayer ''a'' \<lparr>pos_x = 0, pos_y = 0\<rparr> 1)]
        (initial [layerA])) = Some (1, 19)
   \<and> log_of (renders (replicate 21 [MoveLayer ''a'' \<lparr>pos_x = 0, pos_y = 0\<rparr> 1])
        (initial [layerA])) = Some (20, 19)"
proof (intro conjI)
  show "length sample_actions = 21"
    by (simp add: sample_actions_def)
  show "length (history (record_renders [sample_actions] (initial []))) = 1"
    by code_simp
  show "historyIndex (record_renders [sample_actions] (initial [])) = 19"
    by code_simp
  show "log_of (renders [replicate 21 (MoveLayer ''a'' \<lparr>pos_x = 0, pos_y = 0\<rparr> 1)]
      (initial [layerA])) = Some (1, 19)"
    by code_simp
  show "log_of (renders (replicate 21 [MoveLayer ''a'' \<lparr>pos_x = 0, pos_y = 0\<rparr> 1])
      (initial [layerA])) = Some (20, 19)"
    by code_simp
qed

section \<open>Updating a layer\<close>

text \<open>
  C6, as the code has it. For an id that a layer of the store carries,
  \<open>updateLayer(id, partial)\<close> replaces every layer with that id by the layer spread with
  the partial object: each of the eleven keys takes the partial's value when the partial
  lists it, \<open>id\<close> and \<open>type\<close> included, and keeps the layer's value when it does not;
  every other layer stays as it is. So the id
  and the type of the layer stay as they are exactly when the partial lists no \<open>id\<close> and
  no \<open>type\<close> (or lists the values the layer has).
\<close>

theorem updateLayer_merges:
  assumes "i \<in> id_l ` set (layers s)"
  shows "layers (updateLayer i u now s)
           = map (\<lambda>l. if id_l l = i then
                \<lparr>id_l = (case p_id u of None \<Rightarrow> id_l l | Some v \<Rightarrow> v),
                 type_l = (case p_type u of None \<Rightarrow> type_l l | Some v \<Rightarrow> v),
                 position = (case p_position u of None \<Rightarrow> position l | Some v \<Rightarrow> v),
                 scale = (case p_scale u of None \<Rightarrow> scale l | Some v \<Rightarrow> v),
                 rotation = (case p_rotation u of None \<Rightarrow> rotation l | Some v \<Rightarrow> Some v),
                 opacity = (case p_opacity u of None \<Rightarrow> opacity l | Some v \<Rightarrow> v),
                 zIndex = (case p_zIndex u of None \<Rightarrow> zIndex l | Some v \<Rightarrow> v),
                 locked = (case p_locked u of None \<Rightarrow> locked l | Some v \<Rightarrow> v),
                 visible = (case p_visible u of None \<Rightarrow> visible l | Some v \<Rightarrow> v),
                 version = (case p_version u of None \<Rightarrow> version l | Some v \<Rightarrow> v),
                 texturePath = (case p_texturePath u of None \<Rightarrow> texturePath l | Some v \<Rightarrow> v)\<rparr>
              else l) (layers s)"
proof -
  from assms obtain l0 where "find_layer i (layers s) = Some l0"
    using find_layer_None [of i "layers s"] by (cases "find_layer i (layers s)") auto
  then have "layers (updateLayer i u now s)
      = map (\<lambda>l. if id_l l = i then merge l u else l) (layers s)"
    by (simp add: updateLayer_def Let_def addHistoryAction_def handleLayerChange_def)
  moreover have "(if id_l l = i then merge l u else l)
      = (if id_l l = i then
           \<lparr>id_l = (case p_id u of None \<Rightarrow> id_l l | Some v \<Rightarrow> v),
            type_l = (case p_type u of None \<Rightarrow> type_l l | Some v \<Rightarrow> v),
            position = (case p_position u of None \<Rightarrow> position l | Some v \<Rightarrow> v),
            scale = (case p_scale u of None \<Rightarrow> scale l | Some v \<Rightarrow> v),
            rotation = (case p_rotation u of None \<Rightarrow> rotation l | Some v \<Rightarrow> Some v),
            opacity = (case p_opacity u of None \<Rightarrow> opacity l | Some v \<Rightarrow> v),
            zIndex = (case p_zIndex u of None \<Rightarrow> zIndex l | Some v \<Rightarrow> v),
            locked = (case p_locked u of None \<Rightarrow> locked l | Some v \<Rightarrow> v),
            visible = (case p_visible u of None \<Rightarrow> visible l | Some v \<Rightarrow> v),
            version = (case p_version u of None \<Rightarrow> version l | Some v \<Rightarrow> v),
            texturePath = (case p_texturePath u of None \<Rightarrow> texturePath l | Some v \<Rightarrow> v)\<rparr>
         else l)" for l
    by (auto simp: merge_def or_else_def)
  ultimately show ?thesis
    by simp
qed

theorem updateLayer_merges_witness:
  "''a'' \<in> id_l ` set (layers (initial [layerA, layerB]))
   \<and> layers (updateLayer ''a'' (no_fields\<lparr>p_opacity := Some 0, p_locked := Some True\<rparr>) 1
        (initial [layerA, layerB]))
       = [layerA\<lparr>opacity := 0, locked := True\<rparr>, layerB]"
  using updateLayer_merges [of "''a''" "initial [layerA, layerB]"
      "no_fields\<lparr>p_opacity := Some 0, p_locked := Some True\<rparr>" 1]
  by (simp add: initial_def layerA_def layerB_def with_id_def house_def no_fields_def)

text \<open>C6 as stated fails: a partial object that lists \<open>id\<close> and \<open>type\<close> changes both.\<close>

theorem updateLayer_id_counterexample:
  "\<not> (id_l (hd (layers (updateLayer ''a''
               (no_fields\<lparr>p_id := Some ''z'', p_type := Some ''shop''\<rparr>) 1 (initial [layerA]))))
         = id_l (hd (layers (initial [layerA])))
       \<and> type_l (hd (layers (updateLayer ''a''
               (no_fields\<lparr>p_id := Some ''z'', p_type := Some ''shop''\<rparr>) 1 (initial [layerA]))))
         = type_l (hd (layers (initial [layerA]))))"
  by (simp add: updateLayer_def initial_def layerA_def with_id_def house_def no_fields_def
      merge_def or_else_def find_layer_def Let_def addHistoryAction_def handleLayerChange_def)

section \<open>Reachable states\<close>

lemma as_Layer_to_partial [simp]: "as_Layer (Fields (to_partial l)) = Some l"
  by (simp add: to_partial_def)

declare as_Layer.simps(1) [simp del]

lemma well_formed_initial: "well_formed (initial ls)"
  by (simp add: well_formed_def initial_def)

lemma well_formed_addHistoryAction:
  assumes "well_formed s" and "action_ok (stamp a now)"
  shows "well_formed (addHistoryAction a now s)"
proof (cases "isUndoRedoInProgress s \<or> isBatchingActions s")
  case True
  with assms(1) show ?thesis by (simp add: addHistoryAction_def)
next
  case False
  let ?u = "take (nat (historyIndex s + 1)) (history s) @ [stamp a now]"
  from assms(1) have idx: "- 1 \<le> historyIndex s" "historyIndex s < int (length (history s))"
    and ok: "\<forall>x\<in>set (history s). action_ok x"
    by (simp_all add: well_formed_def list_all_iff)
  have len: "int (length ?u) = historyIndex s + 2"
    using idx by (auto simp: min_def)
  have oku: "\<forall>x\<in>set ?u. action_ok x"
    using ok assms(2) by (auto dest: in_set_takeD)
  have h: "history (addHistoryAction a now s)
      = (if length ?u > MAX_HISTORY_SIZE then drop (length ?u - MAX_HISTORY_SIZE) ?u else ?u)"
    using False idx
    by (simp add: addHistoryAction_def Let_def slice_0_take slice_from_drop nat_diff_distrib
        del: length_append)
  have i: "historyIndex (addHistoryAction a now s)
      = min (historyIndex s + 1) (int MAX_HISTORY_SIZE - 1)"
    using False by (simp add: addHistoryAction_def Let_def)
  show ?thesis
    unfolding well_formed_def list_all_iff h i
    using len oku idx by (auto simp: MAX_HISTORY_SIZE_def dest: in_set_dropD)
qed


lemma well_formed_layers [simp]:
  "well_formed (s\<lparr>layers := ls\<rparr>) = well_formed s"
  "well_formed (s\<lparr>selectedLayerId := i\<rparr>) = well_formed s"
  "well_formed (s\<lparr>mapPoints := ps\<rparr>) = well_formed s"
  "well_formed (s\<lparr>isBatchingActions := b\<rparr>) = well_formed s"
  "well_formed (handleLayerChange ls s) = well_formed s"
  by (simp_all add: well_formed_def handleLayerChange_def)

lemma well_formed_addLayer: "well_formed s \<Longrightarrow> well_formed (snd (addLayer sp now now' s))"
  by (auto simp: addLayer_def Let_def action_ok_def stamp_def
      intro!: well_formed_addHistoryAction)

lemma well_formed_removeLayer: "well_formed s \<Longrightarrow> well_formed (removeLayer i now s)"
  by (auto simp: removeLayer_def Let_def action_ok_def stamp_def
      intro!: well_formed_addHistoryAction split: option.splits)

lemma well_formed_updateLayer: "well_formed s \<Longrightarrow> well_formed (updateLayer i u now s)"
  by (auto simp: updateLayer_def Let_def action_ok_def stamp_def
      intro!: well_formed_addHistoryAction split: option.splits)

lemma well_formed_moveLayer: "well_formed s \<Longrightarrow> well_formed (moveLayer i pos now s)"
  by (auto simp: moveLayer_def Let_def action_ok_def stamp_def
      intro!: well_formed_addHistoryAction split: option.splits)

lemma well_formed_reorderLayers: "well_formed s \<Longrightarrow> well_formed (reorderLayers ids now s)"
  by (auto simp: reorderLayers_def Let_def action_ok_def stamp_def
      intro!: well_formed_addHistoryAction)

lemma well_formed_clearLayers: "well_formed s \<Longrightarrow> well_formed (clearLayers now s)"
  by (auto simp: clearLayers_def Let_def action_ok_def stamp_def
      intro!: well_formed_addHistoryAction)

lemma well_formed_finish_undo:
  "well_formed s \<Longrightarrow> 0 \<le> historyIndex s \<Longrightarrow> history s' = history s \<Longrightarrow>
   well_formed (finish (- 1) s s')"
  by (simp add: well_formed_def finish_def)

lemma well_formed_finish_redo:
  "well_formed s \<Longrightarrow> historyIndex s < int (length (history s)) - 1 \<Longrightarrow>
   history s' = history s \<Longrightarrow> well_formed (finish 1 s s')"
  by (simp add: well_formed_def finish_def)

lemma at_index_well_formed:
  assumes "well_formed s" and "0 \<le> k" and "k < int (length (history s))"
  shows "\<exists>a. at_index (history s) k = Some a \<and> action_ok a"
  using assms by (simp add: at_index_def well_formed_def list_all_length)

lemma history_handleLayerChange [simp]: "history (handleLayerChange ls s) = history s"
  by (simp add: handleLayerChange_def)

lemma undo_well_formed:
  assumes "well_formed s"
  shows "\<exists>s'. undo s = Inr s' \<and> well_formed s'"
proof (cases "historyIndex s < 0")
  case True
  with assms show ?thesis by (simp add: undo_def)
next
  case False
  then have nonneg: "0 \<le> historyIndex s" by simp
  moreover from assms have "historyIndex s < int (length (history s))"
    by (simp add: well_formed_def)
  ultimately obtain a where a: "at_index (history s) (historyIndex s) = Some a" "action_ok a"
    using at_index_well_formed [OF assms] by blast
  show ?thesis
    using False a well_formed_finish_undo [OF assms nonneg]
    by (cases "type_a a")
      (auto simp: undo_def action_ok_def split: option.splits snapshot.splits)
qed

lemma redo_well_formed:
  assumes "well_formed s"
  shows "\<exists>s'. redo s = Inr s' \<and> well_formed s'"
proof (cases "historyIndex s \<ge> int (length (history s)) - 1")
  case True
  with assms show ?thesis by (simp add: redo_def)
next
  case False
  then have lt: "historyIndex s < int (length (history s)) - 1" by simp
  moreover from assms have "0 \<le> historyIndex s + 1"
    by (simp add: well_formed_def)
  ultimately obtain a where a: "at_index (history s) (historyIndex s + 1) = Some a" "action_ok a"
    using at_index_well_formed [OF assms, of "historyIndex s + 1"] by auto
  show ?thesis
    using False a well_formed_finish_redo [OF assms lt]
    by (cases "type_a a")
      (auto simp: redo_def action_ok_def split: option.splits snapshot.splits)
qed

lemma step_well_formed:
  "well_formed s \<Longrightarrow> \<exists>s'. step c s = Inr s' \<and> well_formed s'"
  by (cases c)
    (simp_all add: well_formed_addLayer well_formed_removeLayer well_formed_updateLayer
      well_formed_moveLayer well_formed_reorderLayers well_formed_clearLayers
      undo_well_formed redo_well_formed selectLayer_def startBatch_def endBatch_def
      setPoints_def)

lemma exec_well_formed:
  "well_formed s \<Longrightarrow> \<exists>s'. exec cs s = Inr s' \<and> well_formed s'"
proof (induction cs arbitrary: s)
  case Nil
  then show ?case by simp
next
  case (Cons c cs)
  from step_well_formed [OF Cons.prems, of c]
  obtain s1 where "step c s = Inr s1" "well_formed s1" by blast
  with Cons.IH [of s1] show ?case by simp
qed

lemma selectedLayer_cases:
  "selectedLayer s = None \<or>
   (\<exists>l\<in>set (layers s). selectedLayer s = Some l \<and> selectedLayerId s = Some (id_l l))"
proof (cases "selectedLayer s")
  case None
  then show ?thesis by simp
next
  case (Some l)
  then obtain i where "selectedLayerId s = Some i" "find_layer i (layers s) = Some l"
    by (auto simp: selectedLayer_def split: if_splits option.splits)
  with Some find_layer_Some [of i "layers s" l] show ?thesis by auto
qed

text \<open>
  C4. Every sequence of calls of the public operations, from the initial state of the hook
  with any initial layers, runs to a state, and in that state \<open>selectedLayer\<close> is either
  null or a layer of the current collection, the one whose id is \<open>selectedLayerId\<close>.
\<close>

theorem selectedLayer_valid:
  "(\<exists>s. exec cs (initial initialLayers) = Inr s) \<and>
   (\<forall>s. exec cs (initial initialLayers) = Inr s \<longrightarrow>
      selectedLayer s = None \<or>
      (\<exists>l\<in>set (layers s). selectedLayer s = Some l \<and> selectedLayerId s = Some (id_l l)))"
  using exec_well_formed [OF well_formed_initial, of cs initialLayers] selectedLayer_cases
  by blast

theorem selectedLayer_valid_witness:
  "exec [AddLayer house 5 6, SelectLayer (Some ''layer_5'')] (initial [])
     = Inr (selectLayer (Some ''layer_5'') (snd (addLayer house 5 6 (initial []))))
   \<and> selectedLayer (selectLayer (Some ''layer_5'') (snd (addLayer house 5 6 (initial []))))
       = Some (with_id house ''layer_5'')
   \<and> with_id house ''layer_5''
       \<in> set (layers (selectLayer (Some ''layer_5'') (snd (addLayer house 5 6 (initial [])))))"
  using selectedLayer_valid [of "[AddLayer house 5 6, SelectLayer (Some ''layer_5'')]" "[]"]
  by (simp add: selectedLayer_def selectLayer_def addLayer_def Let_def handleLayerChange_def
      addHistoryAction_def initial_def find_layer_def decimal.simps digit_def with_id_def)

section \<open>Undo and redo of a single-layer action\<close>

lemma recording_layers [simp]:
  "recording (s\<lparr>layers := ls\<rparr>) = recording s"
  "recording (s\<lparr>selectedLayerId := i\<rparr>) = recording s"
  "recording (handleLayerChange ls s) = recording s"
  by (simp_all add: recording_def handleLayerChange_def)

lemma cursor_on_layers [simp]:
  "cursor_on (s\<lparr>layers := ls\<rparr>) a = cursor_on s a"
  "cursor_on (s\<lparr>selectedLayerId := i\<rparr>) a = cursor_on s a"
  "cursor_on (handleLayerChange ls s) a = cursor_on s a"
  by (simp_all add: cursor_on_def handleLayerChange_def)

lemma layers_addHistoryAction [simp]:
  "layers (addHistoryAction a now s) = layers s"
  by (simp add: addHistoryAction_def Let_def)

lemma layers_handleLayerChange [simp]: "layers (handleLayerChange ls s) = ls"
  by (simp add: handleLayerChange_def)

lemma cursor_after_record:
  assumes "recording s"
  shows "cursor_on (addHistoryAction a now s) (stamp a now)"
proof -
  define x where "x = stamp a now"
  define u where "u = take (nat (historyIndex s + 1)) (history s) @ [x]"
  from assms have idx: "- 1 \<le> historyIndex s" "historyIndex s < int (length (history s))"
    and flags: "\<not> (isUndoRedoInProgress s \<or> isBatchingActions s)"
    by (simp_all add: recording_def)
  have len: "int (length u) = historyIndex s + 2"
    using idx by (auto simp: u_def min_def)
  have h: "history (addHistoryAction a now s)
      = (if length u > MAX_HISTORY_SIZE then drop (length u - MAX_HISTORY_SIZE) u else u)"
    using flags idx
    by (simp add: u_def x_def addHistoryAction_def Let_def slice_0_take slice_from_drop
        nat_diff_distrib del: length_append)
  have i: "historyIndex (addHistoryAction a now s)
      = min (historyIndex s + 1) (int MAX_HISTORY_SIZE - 1)"
    using flags by (simp add: addHistoryAction_def Let_def)
  have lastu: "u ! (length u - 1) = x"
    by (simp add: u_def nth_append)
  have pos: "0 < length u"
    by (simp add: u_def)
  show ?thesis
  proof (cases "length u > MAX_HISTORY_SIZE")
    case True
    then have hi: "historyIndex (addHistoryAction a now s) = int MAX_HISTORY_SIZE - 1"
      using len i by (simp add: MAX_HISTORY_SIZE_def)
    have "drop (length u - MAX_HISTORY_SIZE) u ! (MAX_HISTORY_SIZE - 1) = u ! (length u - 1)"
      using True by (simp add: MAX_HISTORY_SIZE_def)
    with True lastu show ?thesis
      unfolding cursor_on_def h hi at_index_def x_def [symmetric]
      by (simp add: MAX_HISTORY_SIZE_def)
  next
    case False
    then have hi: "historyIndex (addHistoryAction a now s) = int (length u) - 1"
      using len i by (simp add: MAX_HISTORY_SIZE_def)
    have "nat (int (length u) - 1) = length u - 1"
      by simp
    with False lastu pos show ?thesis
      unfolding cursor_on_def h hi at_index_def x_def [symmetric]
      by simp
  qed
qed


lemma redo_ready_after_undo:
  assumes "cursor_on s a" and "history s' = history s"
  shows "redo_ready (finish (- 1) s s') a"
proof -
  from assms(1) have "0 \<le> historyIndex s" "historyIndex s < int (length (history s))"
    "at_index (history s) (historyIndex s) = Some a"
    by (auto simp: cursor_on_def at_index_def split: if_splits)
  with assms(2) show ?thesis
    by (simp add: redo_ready_def finish_def)
qed

lemma layers_finish [simp]: "layers (finish d s s') = layers s'"
  by (simp add: finish_def)

lemma undo_add:
  assumes "cursor_on s a" and "type_a a = Add" and "layerId a = Some i" and "i \<noteq> []"
  shows "undo s = Inr (finish (- 1) s
           (handleLayerChange (filter (\<lambda>l. id_l l \<noteq> i) (layers s)) s))"
  using assms by (simp add: undo_def cursor_on_def)

lemma undo_remove:
  assumes "cursor_on s a" and "type_a a = Remove" and "layerId a = Some i" and "i \<noteq> []"
    and "before a = Some (Fields (to_partial l))"
  shows "undo s = Inr (finish (- 1) s (handleLayerChange (layers s @ [l]) s))"
  using assms by (simp add: undo_def cursor_on_def)

lemma undo_merge:
  assumes "cursor_on s a" and "type_a a = Update \<or> type_a a = Move"
    and "layerId a = Some i" and "i \<noteq> []" and "before a = Some (Fields p)"
  shows "undo s = Inr (finish (- 1) s
           (handleLayerChange (map (\<lambda>l. if id_l l = i then merge l p else l) (layers s)) s))"
  using assms by (auto simp: undo_def cursor_on_def cong: if_cong)

lemma redo_add:
  assumes "redo_ready s a" and "type_a a = Add" and "after a = Some (Fields (to_partial l))"
  shows "redo s = Inr (finish 1 s (handleLayerChange (layers s @ [l]) s))"
  using assms by (simp add: redo_def redo_ready_def)

lemma redo_remove:
  assumes "redo_ready s a" and "type_a a = Remove" and "layerId a = Some i" and "i \<noteq> []"
  shows "redo s = Inr (finish 1 s
           (handleLayerChange (filter (\<lambda>l. id_l l \<noteq> i) (layers s)) s))"
  using assms by (simp add: redo_def redo_ready_def)

lemma redo_merge:
  assumes "redo_ready s a" and "type_a a = Update \<or> type_a a = Move"
    and "layerId a = Some i" and "i \<noteq> []" and "after a = Some (Fields p)"
  shows "redo s = Inr (finish 1 s
           (handleLayerChange (map (\<lambda>l. if id_l l = i then merge l p else l) (layers s)) s))"
  using assms by (auto simp: redo_def redo_ready_def cong: if_cong)

lemma stamp_simps [simp]:
  "type_a (stamp a now) = type_a a" "layerId (stamp a now) = layerId a"
  "before (stamp a now) = before a" "after (stamp a now) = after a"
  "timestamp (stamp a now) = now"
  by (simp_all add: stamp_def)

lemma undo_redo_addLayer:
  assumes "recording s" and "''layer_'' @ decimal now \<notin> id_l ` set (layers s)"
  shows "\<exists>s2 s3. undo (snd (addLayer sp now now' s)) = Inr s2 \<and> layers s2 = layers s
           \<and> redo s2 = Inr s3 \<and> layers s3 = layers (snd (addLayer sp now now' s))"
proof -
  define i where "i = ''layer_'' @ decimal now"
  define l where "l = with_id sp i"
  define a where "a = \<lparr>type_a = Add, layerId = Some i, before = None,
    after = Some (Fields (to_partial l))\<rparr>"
  define s1 where "s1 = snd (addLayer sp now now' s)"
  have s1: "s1 = handleLayerChange (layers s @ [l])
      (addHistoryAction a now' (s\<lparr>layers := layers s @ [l]\<rparr>))"
    by (simp add: s1_def addLayer_def Let_def a_def l_def i_def)
  have ne: "i \<noteq> []" by (simp add: i_def)
  have cur: "cursor_on s1 (stamp a now')"
    unfolding s1 using cursor_after_record [of "s\<lparr>layers := layers s @ [l]\<rparr>" a now'] assms(1)
    by simp
  have ls1: "layers s1 = layers s @ [l]" by (simp add: s1)
  define s2 where "s2 = finish (- 1) s1
    (handleLayerChange (filter (\<lambda>l. id_l l \<noteq> i) (layers s1)) s1)"
  have u: "undo s1 = Inr s2"
    unfolding s2_def by (rule undo_add [OF cur _ _ ne]) (simp_all add: a_def)
  have "i \<notin> id_l ` set (layers s)"
    unfolding i_def by (rule assms(2))
  then have "\<forall>l'\<in>set (layers s). id_l l' \<noteq> i"
    by blast
  then have "filter (\<lambda>l. id_l l \<noteq> i) (layers s) = layers s"
    by (simp add: filter_id_conv)
  then have ls2: "layers s2 = layers s"
    by (simp add: s2_def ls1 l_def with_id_def)
  have rr: "redo_ready s2 (stamp a now')"
    unfolding s2_def by (rule redo_ready_after_undo [OF cur]) simp
  have r: "redo s2 = Inr (finish 1 s2 (handleLayerChange (layers s2 @ [l]) s2))"
    by (rule redo_add [OF rr]) (simp_all add: a_def)
  show ?thesis
    unfolding s1_def [symmetric] using u r ls2 ls1 by simp
qed


lemma only_find:
  "filter (\<lambda>l'. id_l l' = i) ls = [l] \<Longrightarrow> find_layer i ls = Some l"
  by (induction ls) (auto simp: find_layer_def split: if_splits)

lemma only_unique:
  assumes "filter (\<lambda>l'. id_l l' = i) ls = [l]" and "l' \<in> set ls" and "id_l l' = i"
  shows "l' = l"
proof -
  from assms(2,3) have "l' \<in> set (filter (\<lambda>l'. id_l l' = i) ls)"
    by simp
  with assms(1) show ?thesis
    by simp
qed

lemma undo_redo_removeLayer:
  assumes "recording s" and "filter (\<lambda>l'. id_l l' = i) (layers s) = [l]" and "i \<noteq> []"
  shows "\<exists>s2 s3. undo (removeLayer i now s) = Inr s2
           \<and> layers s2 = filter (\<lambda>l. id_l l \<noteq> i) (layers s) @ [l]
           \<and> redo s2 = Inr s3 \<and> layers s3 = filter (\<lambda>l. id_l l \<noteq> i) (layers s)
           \<and> layers (removeLayer i now s) = filter (\<lambda>l. id_l l \<noteq> i) (layers s)"
proof -
  have l: "find_layer i (layers s) = Some l"
    by (rule only_find [OF assms(2)])
  then have idl: "id_l l = i"
    using find_layer_Some by blast
  define a where "a = \<lparr>type_a = Remove, layerId = Some i,
    before = Some (Fields (to_partial l)), after = None\<rparr>"
  define rest where "rest = filter (\<lambda>l. id_l l \<noteq> i) (layers s)"
  define s1 where "s1 = removeLayer i now s"
  have cur0: "cursor_on (addHistoryAction a now (handleLayerChange rest s)) (stamp a now)"
    using cursor_after_record [of "handleLayerChange rest s" a now] assms(1) by simp
  have cur: "cursor_on s1 (stamp a now)"
    using cur0 l by (simp add: s1_def removeLayer_def Let_def a_def rest_def)
  have ls1: "layers s1 = rest"
    using l by (simp add: s1_def removeLayer_def Let_def rest_def)
  define s2 where "s2 = finish (- 1) s1 (handleLayerChange (layers s1 @ [l]) s1)"
  have u: "undo s1 = Inr s2"
    unfolding s2_def by (rule undo_remove [OF cur _ _ assms(3)]) (simp_all add: a_def)
  have ls2: "layers s2 = rest @ [l]"
    by (simp add: s2_def ls1)
  have rr: "redo_ready s2 (stamp a now)"
    unfolding s2_def by (rule redo_ready_after_undo [OF cur]) simp
  have r: "redo s2 = Inr (finish 1 s2
      (handleLayerChange (filter (\<lambda>l. id_l l \<noteq> i) (layers s2)) s2))"
    by (rule redo_remove [OF rr _ _ assms(3)]) (simp_all add: a_def)
  have "filter (\<lambda>l. id_l l \<noteq> i) (layers s2) = rest"
    by (simp add: ls2 rest_def idl)
  with u r ls2 ls1 show ?thesis
    unfolding s1_def [symmetric] rest_def [symmetric] by simp
qed

lemma merge_back:
  "p_rotation u = None \<or> rotation l \<noteq> None \<Longrightarrow> merge (merge l u) (to_partial l) = l"
  by (auto simp: merge_def to_partial_def or_else_def split: option.splits)

lemma merge_again: "merge l' (to_partial (merge l u)) = merge l u"
  if "rotation l' = rotation l \<or> rotation l' = rotation (merge l u)"
  using that by (auto simp: merge_def to_partial_def or_else_def split: option.splits)

lemma map_layer_id:
  assumes "filter (\<lambda>l'. id_l l' = i) ls = [l]" and "f l = l"
  shows "map (\<lambda>l'. if id_l l' = i then f l' else l') ls = ls"
proof (rule map_idI)
  fix l' assume "l' \<in> set ls"
  with only_unique [OF assms(1)] assms(2)
  show "(if id_l l' = i then f l' else l') = l'" by auto
qed

lemma map_layer_same:
  assumes "filter (\<lambda>l'. id_l l' = i) ls = [l]" and "f l = g l"
  shows "map (\<lambda>l'. if id_l l' = i then f l' else l') ls
       = map (\<lambda>l'. if id_l l' = i then g l' else l') ls"
proof (rule map_cong [OF refl])
  fix l' assume "l' \<in> set ls"
  with only_unique [OF assms(1)] assms(2)
  show "(if id_l l' = i then f l' else l') = (if id_l l' = i then g l' else l')" by auto
qed

lemma map_layer_twice:
  assumes "\<And>l'. id_l l' = i \<Longrightarrow> id_l (f l') = i"
  shows "map (\<lambda>l'. if id_l l' = i then g l' else l') (map (\<lambda>l'. if id_l l' = i then f l' else l') ls)
       = map (\<lambda>l'. if id_l l' = i then g (f l') else l') ls"
  using assms by (induction ls) auto

lemma undo_redo_updateLayer:
  assumes "recording s" and "filter (\<lambda>l'. id_l l' = i) (layers s) = [l]"
    and "i \<noteq> []"
    and "p_id u = None \<or> p_id u = Some i"
    and "p_rotation u = None \<or> rotation l \<noteq> None"
  shows "\<exists>s2 s3. undo (updateLayer i u now s) = Inr s2 \<and> layers s2 = layers s
           \<and> redo s2 = Inr s3 \<and> layers s3 = layers (updateLayer i u now s)"
proof -
  have fl: "find_layer i (layers s) = Some l"
    by (rule only_find [OF assms(2)])
  define a where "a = \<lparr>type_a = Update, layerId = Some i,
    before = Some (Fields (to_partial l)),
    after = Some (Fields (to_partial (merge l u)))\<rparr>"
  define upd where "upd = map (\<lambda>l'. if id_l l' = i then merge l' u else l') (layers s)"
  define s1 where "s1 = updateLayer i u now s"
  have idl: "id_l l = i"
    using find_layer_Some [OF fl] by simp
  have keep: "id_l (merge l' u) = i" if "id_l l' = i" for l'
    using that assms(4) by (auto simp: merge_def or_else_def)
  have cur: "cursor_on s1 (stamp a now)"
    using cursor_after_record [of "handleLayerChange upd s" a now] assms(1) fl
    by (simp add: s1_def updateLayer_def Let_def a_def upd_def)
  have ls1: "layers s1 = upd"
    using fl by (simp add: s1_def updateLayer_def Let_def upd_def)
  define s2 where "s2 = finish (- 1) s1 (handleLayerChange
    (map (\<lambda>l'. if id_l l' = i then merge l' (to_partial l) else l') (layers s1)) s1)"
  have u: "undo s1 = Inr s2"
    unfolding s2_def by (rule undo_merge [OF cur _ _ assms(3)]) (simp_all add: a_def)
  have "layers s2
      = map (\<lambda>l'. if id_l l' = i then merge (merge l' u) (to_partial l) else l') (layers s)"
    unfolding s2_def ls1 upd_def using map_layer_twice [of i "\<lambda>l'. merge l' u"] keep
    by simp
  also have "\<dots> = layers s"
    by (rule map_layer_id [OF assms(2)]) (rule merge_back [OF assms(5)])
  finally have ls2: "layers s2 = layers s" .
  have rr: "redo_ready s2 (stamp a now)"
    unfolding s2_def by (rule redo_ready_after_undo [OF cur]) simp
  have r: "redo s2 = Inr (finish 1 s2 (handleLayerChange
      (map (\<lambda>l'. if id_l l' = i then merge l' (to_partial (merge l u)) else l') (layers s2)) s2))"
    by (rule redo_merge [OF rr _ _ assms(3)]) (simp_all add: a_def)
  have "map (\<lambda>l'. if id_l l' = i then merge l' (to_partial (merge l u)) else l') (layers s)
      = upd"
    unfolding upd_def
    by (rule map_layer_same [OF assms(2)]) (simp add: merge_again)
  with u r ls2 ls1 show ?thesis
    unfolding s1_def [symmetric] by simp
qed

lemma merge_position:
  "merge l (no_fields\<lparr>p_position := Some p\<rparr>) = l\<lparr>position := p\<rparr>"
  by (simp add: merge_def no_fields_def or_else_def)

lemma undo_redo_moveLayer:
  assumes "recording s" and "filter (\<lambda>l'. id_l l' = i) (layers s) = [l]"
    and "i \<noteq> []"
  shows "\<exists>s2 s3. undo (moveLayer i pos now s) = Inr s2 \<and> layers s2 = layers s
           \<and> redo s2 = Inr s3 \<and> layers s3 = layers (moveLayer i pos now s)"
proof -
  have l: "find_layer i (layers s) = Some l"
    by (rule only_find [OF assms(2)])
  define a where "a = \<lparr>type_a = Move, layerId = Some i,
    before = Some (Fields (no_fields\<lparr>p_position := Some (position l)\<rparr>)),
    after = Some (Fields (no_fields\<lparr>p_position := Some pos\<rparr>))\<rparr>"
  define upd where "upd = map (\<lambda>l'. if id_l l' = i then l'\<lparr>position := pos\<rparr> else l') (layers s)"
  define s1 where "s1 = moveLayer i pos now s"
  have cur: "cursor_on s1 (stamp a now)"
    using cursor_after_record [of "handleLayerChange upd s" a now] assms(1) l
    by (simp add: s1_def moveLayer_def Let_def a_def upd_def)
  have ls1: "layers s1 = upd"
    using l by (simp add: s1_def moveLayer_def Let_def upd_def)
  define s2 where "s2 = finish (- 1) s1 (handleLayerChange
    (map (\<lambda>l'. if id_l l' = i then merge l' (no_fields\<lparr>p_position := Some (position l)\<rparr>)
                else l') (layers s1)) s1)"
  have u: "undo s1 = Inr s2"
    unfolding s2_def by (rule undo_merge [OF cur _ _ assms(3)]) (simp_all add: a_def)
  have "layers s2
      = map (\<lambda>l'. if id_l l' = i then l'\<lparr>position := pos\<rparr>\<lparr>position := position l\<rparr> else l')
          (layers s)"
    unfolding s2_def ls1 upd_def merge_position
    using map_layer_twice [of i "\<lambda>l'. l'\<lparr>position := pos\<rparr>" "\<lambda>l'. l'\<lparr>position := position l\<rparr>"]
    by simp
  also have "\<dots> = layers s"
    by (rule map_layer_id [OF assms(2)]) simp
  finally have ls2: "layers s2 = layers s" .
  have rr: "redo_ready s2 (stamp a now)"
    unfolding s2_def by (rule redo_ready_after_undo [OF cur]) simp
  have r: "redo s2 = Inr (finish 1 s2 (handleLayerChange
      (map (\<lambda>l'. if id_l l' = i then merge l' (no_fields\<lparr>p_position := Some pos\<rparr>) else l')
         (layers s2)) s2))"
    by (rule redo_merge [OF rr _ _ assms(3)]) (simp_all add: a_def)
  with u ls2 ls1 show ?thesis
    unfolding s1_def [symmetric] upd_def merge_position by simp
qed

text \<open>
  C1, as the code has it. Let the action be recorded from a store state \<open>S\<close> with no batch
  open, no replay in progress and the cursor at -1 or on an entry of the log, and let the
  action, \<open>undo\<close> and \<open>redo\<close> each be called from a render of its own, so that each sees
  the state the call before it left. Then:
  \<^item> after \<open>addLayer\<close> whose new id no layer of \<open>S\<close> carries, \<open>undo\<close> restores the
    collection exactly;
  \<^item> after \<open>removeLayer\<close> of a layer whose id is non-empty and carried by no other layer,
    \<open>undo\<close> brings the removed layer back with all its field values, at the end of the
    list: the other layers keep their order, and the collection is exactly the earlier
    one when the removed layer was the last;
  \<^item> after \<open>updateLayer\<close> of a layer whose id is non-empty and carried by no other layer,
    by a partial object that does not change the id and does not add a rotation to a
    layer that has none, \<open>undo\<close> restores the collection exactly;
  \<^item> after \<open>moveLayer\<close> of a layer whose id is non-empty and carried by no other layer,
    \<open>undo\<close> restores the collection exactly;
  and in all four cases \<open>redo\<close> right after that \<open>undo\<close> restores exactly the collection
  the action had produced.
\<close>

theorem undo_redo_single_action:
  assumes "recording s"
  shows
    "(''layer_'' @ decimal t \<notin> id_l ` set (layers s) \<longrightarrow>
        layers_of (renders [[AddLayer sp t now], [Undo]] s) = Some (layers s)
        \<and> layers_of (renders [[AddLayer sp t now], [Undo], [Redo]] s)
            = layers_of (renders [[AddLayer sp t now]] s)
        \<and> layers_of (renders [[AddLayer sp t now]] s)
            = Some (layers s @ [with_id sp (''layer_'' @ decimal t)]))
     \<and> (filter (\<lambda>l'. id_l l' = i) (layers s) = [l] \<and> i \<noteq> [] \<longrightarrow>
        layers_of (renders [[RemoveLayer i now], [Undo]] s)
          = Some (filter (\<lambda>l'. id_l l' \<noteq> i) (layers s) @ [l])
        \<and> layers_of (renders [[RemoveLayer i now], [Undo], [Redo]] s)
            = layers_of (renders [[RemoveLayer i now]] s)
        \<and> layers_of (renders [[RemoveLayer i now]] s)
            = Some (filter (\<lambda>l'. id_l l' \<noteq> i) (layers s)))
     \<and> (filter (\<lambda>l'. id_l l' = i) (layers s) = [l] \<and> i \<noteq> []
        \<and> (p_id u = None \<or> p_id u = Some i) \<and> (p_rotation u = None \<or> rotation l \<noteq> None) \<longrightarrow>
        layers_of (renders [[UpdateLayer i u now], [Undo]] s) = Some (layers s)
        \<and> layers_of (renders [[UpdateLayer i u now], [Undo], [Redo]] s)
            = layers_of (renders [[UpdateLayer i u now]] s)
        \<and> layers_of (renders [[UpdateLayer i u now]] s)
            = Some (map (\<lambda>l'. if id_l l' = i then merge l' u else l') (layers s)))
     \<and> (filter (\<lambda>l'. id_l l' = i) (layers s) = [l] \<and> i \<noteq> [] \<longrightarrow>
        layers_of (renders [[MoveLayer i pos now], [Undo]] s) = Some (layers s)
        \<and> layers_of (renders [[MoveLayer i pos now], [Undo], [Redo]] s)
            = layers_of (renders [[MoveLayer i pos now]] s)
        \<and> layers_of (renders [[MoveLayer i pos now]] s)
            = Some (map (\<lambda>l'. if id_l l' = i then l'\<lparr>position := pos\<rparr> else l') (layers s)))"
proof (intro conjI impI)
  assume "''layer_'' @ decimal t \<notin> id_l ` set (layers s)"
  from undo_redo_addLayer [OF assms this, of sp now]
  show "layers_of (renders [[AddLayer sp t now], [Undo]] s) = Some (layers s)"
    and "layers_of (renders [[AddLayer sp t now], [Undo], [Redo]] s)
      = layers_of (renders [[AddLayer sp t now]] s)"
    unfolding renders_1 renders_2 renders_3 by (auto simp: layers_of_def)
  show "layers_of (renders [[AddLayer sp t now]] s)
      = Some (layers s @ [with_id sp (''layer_'' @ decimal t)])"
    unfolding renders_1 by (simp add: layers_of_def addLayer_def Let_def)
next
  assume "filter (\<lambda>l'. id_l l' = i) (layers s) = [l] \<and> i \<noteq> []"
  then have h: "filter (\<lambda>l'. id_l l' = i) (layers s) = [l]" "i \<noteq> []"
    by simp_all
  have fl: "find_layer i (layers s) = Some l"
    by (rule only_find [OF h(1)])
  from undo_redo_removeLayer [OF assms h, of now]
  show "layers_of (renders [[RemoveLayer i now], [Undo]] s)
      = Some (filter (\<lambda>l'. id_l l' \<noteq> i) (layers s) @ [l])"
    and "layers_of (renders [[RemoveLayer i now], [Undo], [Redo]] s)
      = layers_of (renders [[RemoveLayer i now]] s)"
    and "layers_of (renders [[RemoveLayer i now]] s)
      = Some (filter (\<lambda>l'. id_l l' \<noteq> i) (layers s))"
    unfolding renders_1 renders_2 renders_3 by (auto simp: layers_of_def)
  from undo_redo_moveLayer [OF assms h, of pos now]
  show "layers_of (renders [[MoveLayer i pos now], [Undo]] s) = Some (layers s)"
    and "layers_of (renders [[MoveLayer i pos now], [Undo], [Redo]] s)
      = layers_of (renders [[MoveLayer i pos now]] s)"
    unfolding renders_1 renders_2 renders_3 by (auto simp: layers_of_def)
  show "layers_of (renders [[MoveLayer i pos now]] s)
      = Some (map (\<lambda>l'. if id_l l' = i then l'\<lparr>position := pos\<rparr> else l') (layers s))"
    using fl unfolding renders_1 by (simp add: layers_of_def moveLayer_def Let_def)
next
  assume "filter (\<lambda>l'. id_l l' = i) (layers s) = [l] \<and> i \<noteq> []
    \<and> (p_id u = None \<or> p_id u = Some i) \<and> (p_rotation u = None \<or> rotation l \<noteq> None)"
  then have h: "filter (\<lambda>l'. id_l l' = i) (layers s) = [l]" "i \<noteq> []"
    "p_id u = None \<or> p_id u = Some i" "p_rotation u = None \<or> rotation l \<noteq> None"
    by simp_all
  have fl: "find_layer i (layers s) = Some l"
    by (rule only_find [OF h(1)])
  from undo_redo_updateLayer [OF assms h, of now]
  show "layers_of (renders [[UpdateLayer i u now], [Undo]] s) = Some (layers s)"
    and "layers_of (renders [[UpdateLayer i u now], [Undo], [Redo]] s)
      = layers_of (renders [[UpdateLayer i u now]] s)"
    unfolding renders_1 renders_2 renders_3 by (auto simp: layers_of_def)
  show "layers_of (renders [[UpdateLayer i u now]] s)
      = Some (map (\<lambda>l'. if id_l l' = i then merge l' u else l') (layers s))"
    using fl unfolding renders_1 by (simp add: layers_of_def updateLayer_def Let_def)
qed

theorem undo_redo_single_action_witness:
  "recording (initial [layerA, layerB])
   \<and> layers_of (renders [[AddLayer house 5 6], [Undo]] (initial [layerA, layerB]))
       = Some [layerA, layerB]
   \<and> layers_of (renders [[AddLayer house 5 6], [Undo], [Redo]] (initial [layerA, layerB]))
       = Some [layerA, layerB, with_id house ''layer_5'']
   \<and> layers_of (renders [[RemoveLayer ''b'' 6], [Undo]] (initial [layerA, layerB]))
       = Some [layerA, layerB]
   \<and> layers_of (renders [[RemoveLayer ''b'' 6], [Undo], [Redo]] (initial [layerA, layerB]))
       = Some [layerA]
   \<and> layers_of (renders [[UpdateLayer ''b'' (no_fields\<lparr>p_visible := Some False\<rparr>) 6], [Undo]]
        (initial [layerA, layerB])) = Some [layerA, layerB]
   \<and> layers_of (renders [[UpdateLayer ''b'' (no_fields\<lparr>p_visible := Some False\<rparr>) 6], [Undo],
        [Redo]] (initial [layerA, layerB])) = Some [layerA, layerB\<lparr>visible := False\<rparr>]
   \<and> layers_of (renders [[MoveLayer ''b'' \<lparr>pos_x = 10, pos_y = 20\<rparr> 6], [Undo]]
        (initial [layerA, layerB])) = Some [layerA, layerB]
   \<and> layers_of (renders [[MoveLayer ''b'' \<lparr>pos_x = 10, pos_y = 20\<rparr> 6], [Undo], [Redo]]
        (initial [layerA, layerB]))
       = Some [layerA, layerB\<lparr>position := \<lparr>pos_x = 10, pos_y = 20\<rparr>\<rparr>]"
  using undo_redo_single_action [where s = "initial [layerA, layerB]" and t = 5
      and sp = house and now = 6 and i = "''b''" and l = layerB
      and u = "no_fields\<lparr>p_visible := Some False\<rparr>" and pos = "\<lparr>pos_x = 10, pos_y = 20\<rparr>"]
  unfolding renders_1 renders_2 renders_3
  by (simp add: recording_def addLayer_def removeLayer_def updateLayer_def moveLayer_def
      eval_defs)

text \<open>
  C1 as stated fails on the list order: with the layers a and b in the store, removing a
  and undoing leaves b before a.
\<close>

theorem undo_remove_order_counterexample:
  "layers_of (exec [RemoveLayer ''a'' 1, Undo] (initial [layerA, layerB]))
     = Some [layerB, layerA]
   \<and> [layerB, layerA] \<noteq> layers (initial [layerA, layerB])"
  by (simp add: removeLayer_def undo_def eval_defs)

text \<open>
  Each condition above is needed. A rotation that an update adds to a layer without one
  stays after \<open>undo\<close>; an update that changes the id is not undone; \<open>undo\<close> of an add
  removes every layer with the id of the added one; a remove of a layer whose id is the
  empty string is not undone; of two layers with one id, both take the first one's
  position when a move is undone; an \<open>undo\<close> called from the render that the action
  was called from still sees the cursor of that render, here -1, and undoes nothing; and
  after two \<open>addLayer\<close> calls of one render the cursor is beyond the log, so that, after
  a remove, \<open>undo\<close> reads no action and throws.
\<close>

lemma undo_update_added_rotation:
  "layers_of (exec [UpdateLayer ''a'' (no_fields\<lparr>p_rotation := Some 1\<rparr>) 1, Undo]
     (initial [layerA])) = Some [layerA\<lparr>rotation := Some 1\<rparr>]"
  by (simp add: updateLayer_def undo_def eval_defs)

lemma undo_update_changed_id:
  "layers_of (exec [UpdateLayer ''a'' (no_fields\<lparr>p_id := Some ''z''\<rparr>) 1, Undo]
     (initial [layerA])) = Some [layerA\<lparr>id_l := ''z''\<rparr>]"
  by (simp add: updateLayer_def undo_def eval_defs)

lemma undo_add_known_id:
  "layers_of (exec [AddLayer house 5 6, Undo] (initial [with_id house ''layer_5''])) = Some []"
  by (simp add: addLayer_def undo_def eval_defs)

lemma undo_remove_empty_id:
  "layers_of (exec [RemoveLayer [] 1, Undo] (initial [with_id house []])) = Some []"
  by (simp add: removeLayer_def undo_def eval_defs)

lemma undo_move_shared_id:
  "layers_of (exec [MoveLayer ''a'' \<lparr>pos_x = 0, pos_y = 0\<rparr> 1, Undo]
     (initial [layerA, layerA\<lparr>position := \<lparr>pos_x = 7, pos_y = 7\<rparr>\<rparr>]))
   = Some [layerA, layerA]"
  by (simp add: moveLayer_def undo_def eval_defs)

lemma undo_in_the_same_render:
  "layers_of (renders [[AddLayer house 5 6, Undo]] (initial [])) = Some [with_id house ''layer_5'']
   \<and> log_of (renders [[AddLayer house 5 6, Undo]] (initial [])) = Some (1, 0)"
  by (simp add: addLayer_in_def undo_in_def addHistoryAction_in_def log_of_def eval_defs)

lemma undo_with_cursor_beyond_log:
  "log_of (renders [[AddLayer house 5 6, AddLayer house 7 8]] (initial [])) = Some (1, 1)
   \<and> isl (renders [[AddLayer house 5 6, AddLayer house 7 8], [RemoveLayer ''layer_7'' 9], [Undo]]
        (initial []))"
  by (simp add: addLayer_in_def removeLayer_in_def undo_in_def addHistoryAction_in_def
      log_of_def eval_defs)

section \<open>Bulk actions\<close>

lemma undo_reorderLayers:
  assumes "recording s"
  shows "layers_of (undo (reorderLayers ids now s)) = Some (layers s)"
proof -
  define a where "a = \<lparr>type_a = Reorder, layerId = None, before = Some (LayersSnap (layers s)),
    after = Some (LayersSnap
      (map (\<lambda>(index, l). l\<lparr>zIndex := of_nat index\<rparr>) (indexed (layers s))))\<rparr>"
  define s1 where "s1 = reorderLayers ids now s"
  have "\<exists>ls. s1 = addHistoryAction a now (handleLayerChange ls s)"
    by (auto simp: s1_def reorderLayers_def Let_def a_def)
  then have "cursor_on s1 (stamp a now)"
    using cursor_after_record [of _ a now] assms by auto
  then have "undo s1 = Inr (finish (- 1) s1 (handleLayerChange (layers s) s1))"
    by (simp add: undo_def cursor_on_def a_def)
  then show ?thesis
    by (simp add: s1_def layers_of_def)
qed

text \<open>
  C5 on the code. \<open>clearLayers\<close> records its action with type \<open>remove\<close>, the whole
  collection as \<open>before\<close> and no layer id; the \<open>remove\<close> branch of \<open>undo\<close> restores only
  when the action names a layer. With the layers a and b in the store, \<open>clearLayers\<close> and
  then \<open>undo\<close> leave the store empty, although the log holds both layers in the \<open>before\<close>
  snapshot of the action undone.
\<close>

theorem undo_clearLayers_restores_nothing:
  "layers_of (exec [ClearLayers 1, Undo] (initial [layerA, layerB])) = Some []
   \<and> map before (history (clearLayers 1 (initial [layerA, layerB])))
       = [Some (LayersSnap [layerA, layerB])]
   \<and> map layerId (history (clearLayers 1 (initial [layerA, layerB]))) = [None]
   \<and> map type_a (history (clearLayers 1 (initial [layerA, layerB]))) = [Remove]"
  by (simp add: clearLayers_def undo_def eval_defs)

section \<open>Reordering\<close>

lemma in_indexed: "(k, x) \<in> set (indexed xs) \<longleftrightarrow> k < length xs \<and> xs ! k = x"
  by (auto simp: indexed_def in_set_enumerate_eq)

text \<open>What \<open>reorderLayers\<close> leaves in the store: for every position of \<open>orderedIds\<close> whose id
  a layer carries, that layer with the position as its \<open>zIndex\<close>, and nothing else.\<close>

lemma reorderLayers_members:
  "l' \<in> set (layers (reorderLayers ids now s)) \<longleftrightarrow>
     (\<exists>k l. k < length ids \<and> layerMap (layers s) (ids ! k) = Some l
        \<and> l' = l\<lparr>zIndex := of_nat k\<rparr>)"
  by (auto simp: reorderLayers_def Let_def List.map_filter_def in_indexed image_iff)

text \<open>
  C2 on the code. \<open>reorderLayers\<close> builds the new collection from \<open>orderedIds\<close> alone: a
  layer of the store whose id the list omits is not kept with its \<open>zIndex\<close>, it is dropped.
  With the layers a and b in the store, \<open>reorderLayers(['b'])\<close> leaves b alone, with
  \<open>zIndex\<close> 0, while the \<open>after\<close> snapshot that the same call records still holds both
  layers.
\<close>

theorem reorderLayers_drops_omitted:
  "layers (reorderLayers [''b''] 1 (initial [layerA, layerB])) = [layerB\<lparr>zIndex := 0\<rparr>]
   \<and> layerA \<in> set (layers (initial [layerA, layerB]))
   \<and> ''a'' \<notin> id_l ` set (layers (reorderLayers [''b''] 1 (initial [layerA, layerB])))
   \<and> map after (history (reorderLayers [''b''] 1 (initial [layerA, layerB])))
       = [Some (LayersSnap [layerA\<lparr>zIndex := 0\<rparr>, layerB\<lparr>zIndex := 1\<rparr>])]"
  by (simp add: reorderLayers_def layerMap_def indexed_def List.map_filter_def eval_defs)

section \<open>Layer ids\<close>

text \<open>
  C8 on the code. The id of a new layer is \<open>layer_\<close> followed by the clock reading, so
  two \<open>addLayer\<close> calls that read the same clock value give their layers the same id:
  after two calls at time 5 the store holds two layers with the id \<open>layer_5\<close>.
\<close>

theorem addLayer_same_timestamp_same_id:
  "map id_l (layers (snd (addLayer house 5 7 (snd (addLayer house 5 6 (initial []))))))
     = [''layer_5'', ''layer_5'']
   \<and> fst (addLayer house 5 7 (snd (addLayer house 5 6 (initial []))))
       = fst (addLayer house 5 6 (initial []))
   \<and> \<not> distinct (map id_l
          (layers (snd (addLayer house 5 7 (snd (addLayer house 5 6 (initial [])))))))"
  by (simp add: addLayer_def eval_defs)

section \<open>Passes of the render synchronizer\<close>

lemma pending_add_sprite [simp]: "pending (add_sprite l r) = pending r"
  by (simp add: add_sprite_def)

lemma stage_add_sprite [simp]:
  "map snd (stage (add_sprite l r)) = map snd (stage r) @ [make_sprite l]"
  by (simp add: add_sprite_def)

lemma run_idle: "pending r = [] \<Longrightarrow> run (replicate n (Loaded 0)) r = r"
  by (induction n) (simp_all add: loaded_def)

lemma loaded_single:
  "pending r = [\<lparr>awaiting = l, remaining = rest\<rparr>] \<Longrightarrow>
   loaded 0 r = run_loop rest
     (add_sprite l (r\<lparr>pending := [], textureCache := insert (texturePath l) (textureCache r)\<rparr>))"
  by (simp add: loaded_def without_def)

lemma run_loop_alone:
  assumes "pending r = []" and "length ls \<le> n"
  shows "pending (run (replicate n (Loaded 0)) (run_loop ls r)) = []
    \<and> map snd (stage (run (replicate n (Loaded 0)) (run_loop ls r)))
        = map snd (stage r) @ map make_sprite (filter visible ls)"
  using assms
proof (induction ls arbitrary: r n)
  case Nil
  then show ?case by (simp add: run_idle)
next
  case (Cons l rest)
  show ?case
  proof (cases "visible l")
    case False
    with Cons.IH [of r n] Cons.prems show ?thesis by simp
  next
    case True
    show ?thesis
    proof (cases "texturePath l \<in> textureCache r")
      case cached: True
      with Cons.IH [of "add_sprite l r" n] Cons.prems True show ?thesis by simp
    next
      case False
      from Cons.prems obtain m where n: "n = Suc m" and m: "length rest \<le> m"
        by (cases n) auto
      define r1 where "r1 = add_sprite l
        (r\<lparr>pending := [], textureCache := insert (texturePath l) (textureCache r)\<rparr>)"
      have susp: "run_loop (l # rest) r = r\<lparr>pending := [\<lparr>awaiting = l, remaining = rest\<rparr>]\<rparr>"
        using True False Cons.prems by simp
      have "loaded 0 (run_loop (l # rest) r) = run_loop rest r1"
        unfolding susp r1_def by (subst loaded_single) simp_all
      then have "run (replicate n (Loaded 0)) (run_loop (l # rest) r)
          = run (replicate m (Loaded 0)) (run_loop rest r1)"
        by (simp add: n)
      moreover have "pending r1 = []" "map snd (stage r1) = map snd (stage r) @ [make_sprite l]"
        by (simp_all add: r1_def add_sprite_def)
      ultimately show ?thesis
        using Cons.IH [of r1 m] m True by simp
    qed
  qed
qed

lemma clean_clear:
  "clean r \<Longrightarrow> filter (\<lambda>(n, sp). n \<notin> snd ` set (layersRef r)) (stage r) = []"
  by (auto simp: clean_def list_all_iff filter_empty_conv)

text \<open>
  C10, as the code has it. A pass carries no generation number, and the completion of a
  load that an older pass waits for is applied like any other. What holds is the
  sequential case: a pass that starts when no pass is suspended and every sprite on the
  stage is one that \<open>layersRef\<close> holds, and whose loads all complete before another
  pass starts, ends with no pass suspended and with exactly the sprites of the visible
  layers of its snapshot on the stage, in ascending order of \<open>zIndex\<close>, layers with
  equal \<open>zIndex\<close> in the order of the snapshot.
\<close>

theorem pass_alone:
  assumes "pending r = []" and "clean r" and "length ls \<le> n"
  shows "pending (run (Render ls # replicate n (Loaded 0)) r) = []
    \<and> map snd (stage (run (Render ls # replicate n (Loaded 0)) r))
        = map make_sprite (filter visible (sort_key zIndex ls))"
proof -
  define r0 where "r0 = r\<lparr>stage := filter (\<lambda>(n, sp). n \<notin> snd ` set (layersRef r)) (stage r),
    layersRef := []\<rparr>"
  have "pending r0 = []" "stage r0 = []"
    using assms(1) clean_clear [OF assms(2)] by (simp_all add: r0_def)
  with run_loop_alone [of r0 "sort_key zIndex ls" n] assms(3) show ?thesis
    by (simp add: renderLayers_def r0_def)
qed

lemmas render_defs =
  renderLayers_def loaded_def failed_def add_sprite_def without_def new_renderer_def
  make_sprite_def layerA_def layerB_def with_id_def house_def Let_def

theorem pass_alone_witness:
  "pending new_renderer = [] \<and> clean new_renderer \<and> length [layerB, layerA] \<le> 2
   \<and> pending (run (Render [layerB, layerA] # replicate 2 (Loaded 0)) new_renderer) = []
   \<and> map snd (stage (run (Render [layerB, layerA] # replicate 2 (Loaded 0)) new_renderer))
       = [make_sprite layerA, make_sprite layerB]"
  using pass_alone [of new_renderer "[layerB, layerA]" 2]
  by (simp add: new_renderer_def clean_def layerA_def layerB_def with_id_def house_def)

text \<open>
  C10 as stated fails. A pass over the layer a is suspended at its load; a pass over the
  empty collection starts and ends; then the load completes: the stage holds the sprite
  of a, where the newest pass alone leaves it empty. With the same snapshot in both
  passes, the stage ends with two sprites of the one layer.
\<close>

theorem stale_completion_counterexample:
  "map snd (stage (run [Render [layerA], Render [], Loaded 0] new_renderer))
     = [make_sprite layerA]
   \<and> map snd (stage (run [Render []] new_renderer)) = []
   \<and> map snd (stage (run [Render [layerA], Render [layerA], Loaded 0, Loaded 0] new_renderer))
       = [make_sprite layerA, make_sprite layerA]
   \<and> map snd (stage (run [Render [layerA], Loaded 0] new_renderer)) = [make_sprite layerA]"
  by (simp add: render_defs)

end
